theory Spec2Isabelle
  imports Main "HOL-Library.Word" "HOL-Library.Signed_Division"
begin

unbundle bit_operations_syntax

section \<open>The callback notifier of the emulated camera (camera/CallbackNotifier.cpp)\<close>

text \<open>
  The class \<open>CallbackNotifier\<close> is embedded as a record of its members and one HOL
  function per method, each taking the object and returning the updated object.  A call
  of a client callback or of an external collaborator (allocator, EXIF builder, thumbnail
  generator, JPEG compressor) is recorded as an event of the call's trace; what the
  collaborators answer during one frame is an argument of the dispatch function.  A call
  through a NULL function pointer and an integer division by zero end the run with a
  fault.  Methods are modelled as they run on one thread; the mutex is not modelled.
\<close>

subsection \<open>Types\<close>

text \<open>\<open>nsecs_t\<close> is \<open>int64_t\<close>; signed overflow is modelled as two's complement wrap-around.\<close>

type_synonym nsecs_t = "64 word"
type_synonym uint32_t = "32 word"

text \<open>
  \<open>status_t\<close>: this file names \<open>NO_ERROR\<close> and \<open>INVALID_OPERATION\<close>; any other
  status a collaborator returns is an \<open>ERROR_CODE\<close> with its code, which is not 0.
\<close>

datatype status_t = NO_ERROR | INVALID_OPERATION | ERROR_CODE int

text \<open>A pointer is an address or NULL (\<open>None\<close>).\<close>

type_synonym pointer = "nat option"

text \<open>
  \<open>camera_memory_t\<close>: the block returned by the allocator callback.  \<open>handle\<close> is the
  address of the block itself, \<open>data\<close> its payload pointer.
\<close>

record camera_memory_t =
  handle :: nat
  data :: pointer

text \<open>The two keys of \<open>mCameraParameters\<close> that this file reads with \<open>getInt\<close>.\<close>

record CameraParameters =
  KEY_JPEG_THUMBNAIL_WIDTH :: int
  KEY_JPEG_THUMBNAIL_HEIGHT :: int

record CallbackNotifier =
  mNotifyCB :: pointer
  mDataCB :: pointer
  mDataCBTimestamp :: pointer
  mGetMemoryCB :: pointer
  mCBOpaque :: pointer
  mLastFrameTimestamp :: nsecs_t
  mFrameRefreshFreq :: nsecs_t
  mMessageEnabler :: uint32_t
  mJpegQuality :: int
  mVideoRecEnabled :: bool
  mTakingPicture :: bool
  mCameraMemoryTs :: "camera_memory_t list"
  mCameraParameters :: CameraParameters

datatype fault = NullFunctionCall | DivisionByZero

text \<open>
  The calls that leave the notifier, in the order in which a method makes them.
  \<open>PushBackCall\<close> is \<open>mCameraMemoryTs.push_back\<close> of the video block: it is recorded in the
  trace as well, so that the trace shows where the append stands among the calls.
\<close>

datatype event =
    GetMemoryCall nat "camera_memory_t option"
  | MemcpyCall camera_memory_t pointer nat
  | DataTimestampCall nsecs_t uint32_t camera_memory_t pointer
  | DataCall uint32_t camera_memory_t pointer
  | NotifyCall uint32_t int int pointer
  | ReleaseCall camera_memory_t
  | PushBackCall camera_memory_t
  | CreateExifDataCall nat
  | CreateThumbnailCall int int int int int nat bool
  | CompressRawImageCall int int int nat status_t
  | GetCompressedImageCall camera_memory_t
  | FreeExifDataCall nat

text \<open>
  What the device and the collaborators answer while one frame is dispatched:
  the geometry of the device, the blocks the allocator returns to the video, preview
  and JPEG requests (\<open>None\<close> is a NULL block), the handle \<open>createExifData\<close> returns,
  the result of \<open>createThumbnail\<close>, and the status and size of the compressor.
\<close>

record frame_env =
  getFrameBufferSize :: nat
  getFrameWidth :: int
  getFrameHeight :: int
  videoMemory :: "camera_memory_t option"
  previewMemory :: "camera_memory_t option"
  jpegMemory :: "camera_memory_t option"
  createExifData :: nat
  createThumbnail :: bool
  compressRawImage :: status_t
  getCompressedSize :: nat

subsection \<open>Message kinds\<close>

text \<open>
  The \<open>CAMERA_MSG_*\<close> constants come from a system header; each is the bit whose
  position is the index of its name in the table \<open>lCameraMessages\<close> below.
\<close>

definition lCameraMessages :: "string list" where
  "lCameraMessages =
    [''CAMERA_MSG_ERROR'',
     ''CAMERA_MSG_SHUTTER'',
     ''CAMERA_MSG_FOCUS'',
     ''CAMERA_MSG_ZOOM'',
     ''CAMERA_MSG_PREVIEW_FRAME'',
     ''CAMERA_MSG_VIDEO_FRAME'',
     ''CAMERA_MSG_POSTVIEW_FRAME'',
     ''CAMERA_MSG_RAW_IMAGE'',
     ''CAMERA_MSG_COMPRESSED_IMAGE'',
     ''CAMERA_MSG_RAW_IMAGE_NOTIFY'',
     ''CAMERA_MSG_PREVIEW_METADATA'']"

definition lCameraMessagesNum :: int where
  "lCameraMessagesNum = int (length lCameraMessages)"

definition CAMERA_MSG_ERROR :: uint32_t where "CAMERA_MSG_ERROR = 0x0001"
definition CAMERA_MSG_SHUTTER :: uint32_t where "CAMERA_MSG_SHUTTER = 0x0002"
definition CAMERA_MSG_FOCUS :: uint32_t where "CAMERA_MSG_FOCUS = 0x0004"
definition CAMERA_MSG_PREVIEW_FRAME :: uint32_t where "CAMERA_MSG_PREVIEW_FRAME = 0x0010"
definition CAMERA_MSG_VIDEO_FRAME :: uint32_t where "CAMERA_MSG_VIDEO_FRAME = 0x0020"
definition CAMERA_MSG_COMPRESSED_IMAGE :: uint32_t where "CAMERA_MSG_COMPRESSED_IMAGE = 0x0100"
definition CAMERA_MSG_RAW_IMAGE_NOTIFY :: uint32_t where "CAMERA_MSG_RAW_IMAGE_NOTIFY = 0x0200"

subsection \<open>GetMessageStrings\<close>

text \<open>
  The inner loop of \<open>GetMessageStrings\<close>:
  \<^verbatim>\<open>while ((msg & 0x1) == 0 && index < lCameraMessagesNum) { msg >>= 1; index++; }\<close>
\<close>

function skipClearBits :: "uint32_t \<Rightarrow> int \<Rightarrow> uint32_t \<times> int" where
  "skipClearBits msg index =
     (if msg AND 1 = 0 \<and> index < lCameraMessagesNum
      then skipClearBits (drop_bit 1 msg) (index + 1)
      else (msg, index))"
  by pat_completeness auto
termination
  by (relation "measure (\<lambda>(msg, index). nat (lCameraMessagesNum - index))") auto

declare skipClearBits.simps [simp del]

text \<open>
  The outer loop.  The array behind the pointer \<open>strings\<close> is a store from indices to
  strings; the loop writes below \<open>max\<close> only.
\<close>

function GetMessageStrings_loop ::
  "uint32_t \<Rightarrow> int \<Rightarrow> int \<Rightarrow> (nat \<Rightarrow> string) \<Rightarrow> int \<Rightarrow> int \<times> (nat \<Rightarrow> string)" where
  "GetMessageStrings_loop msg index out strings max' =
     (if msg \<noteq> 0 \<and> out < max' \<and> index < lCameraMessagesNum
      then (case skipClearBits msg index of (msg1, index1) \<Rightarrow>
              if msg1 AND 1 \<noteq> 0 \<and> index1 < lCameraMessagesNum
              then GetMessageStrings_loop (drop_bit 1 msg1) (index1 + 1) (out + 1)
                     (strings(nat out := lCameraMessages ! nat index1)) max'
              else GetMessageStrings_loop msg1 index1 out strings max')
      else (out, strings))"
  by pat_completeness auto

lemma skipClearBits_index_le:
  "skipClearBits msg index = (msg1, index1) \<Longrightarrow> index \<le> index1"
proof (induction msg index rule: skipClearBits.induct)
  case (1 msg index)
  show ?case
  proof (cases "msg AND 1 = 0 \<and> index < lCameraMessagesNum")
    case True
    with "1.prems" have "skipClearBits (drop_bit 1 msg) (index + 1) = (msg1, index1)"
      by (simp add: skipClearBits.simps [of msg index])
    with "1.IH" True have "index + 1 \<le> index1" by blast
    then show ?thesis by simp
  next
    case False
    with "1.prems" show ?thesis
      by (simp add: skipClearBits.simps [of msg index])
  qed
qed

lemma skipClearBits_stops:
  "skipClearBits msg index = (msg1, index1) \<Longrightarrow>
     msg1 AND 1 \<noteq> 0 \<or> lCameraMessagesNum \<le> index1"
proof (induction msg index rule: skipClearBits.induct)
  case (1 msg index)
  show ?case
  proof (cases "msg AND 1 = 0 \<and> index < lCameraMessagesNum")
    case True
    with "1.prems" have "skipClearBits (drop_bit 1 msg) (index + 1) = (msg1, index1)"
      by (simp add: skipClearBits.simps [of msg index])
    with "1.IH" True show ?thesis by blast
  next
    case False
    with "1.prems" show ?thesis
      by (auto simp: skipClearBits.simps [of msg index])
  qed
qed

termination GetMessageStrings_loop
proof (relation "measure (\<lambda>(msg, index, out, strings, max'). nat (lCameraMessagesNum - index))",
    goal_cases)
  case 1
  show ?case by simp
next
  case 2
  then show ?case
    by (auto dest: skipClearBits_index_le [OF sym])
next
  case 3
  then show ?case
    by (auto dest: skipClearBits_stops [OF sym])
qed

declare GetMessageStrings_loop.simps [simp del]

definition GetMessageStrings :: "uint32_t \<Rightarrow> (nat \<Rightarrow> string) \<Rightarrow> int \<Rightarrow> int \<times> (nat \<Rightarrow> string)" where
  "GetMessageStrings msg strings max' = GetMessageStrings_loop msg 0 0 strings max'"

subsection \<open>Construction and the camera API\<close>

text \<open>
  The constructor.  \<open>mCameraParameters\<close> is not initialised in this file and is taken
  as an argument.
\<close>

definition CallbackNotifier_new :: "CameraParameters \<Rightarrow> CallbackNotifier" where
  "CallbackNotifier_new params =
     \<lparr>mNotifyCB = None, mDataCB = None, mDataCBTimestamp = None, mGetMemoryCB = None,
      mCBOpaque = None, mLastFrameTimestamp = 0, mFrameRefreshFreq = 0,
      mMessageEnabler = 0, mJpegQuality = 90, mVideoRecEnabled = False,
      mTakingPicture = False, mCameraMemoryTs = [], mCameraParameters = params\<rparr>"

definition setCallbacks ::
  "pointer \<Rightarrow> pointer \<Rightarrow> pointer \<Rightarrow> pointer \<Rightarrow> pointer \<Rightarrow> CallbackNotifier \<Rightarrow> CallbackNotifier" where
  "setCallbacks notify_cb data_cb data_cb_timestamp get_memory user s =
     s\<lparr>mNotifyCB := notify_cb, mDataCB := data_cb, mDataCBTimestamp := data_cb_timestamp,
       mGetMemoryCB := get_memory, mCBOpaque := user\<rparr>"

definition enableMessage :: "uint32_t \<Rightarrow> CallbackNotifier \<Rightarrow> CallbackNotifier" where
  "enableMessage msg_type s = s\<lparr>mMessageEnabler := mMessageEnabler s OR msg_type\<rparr>"

definition disableMessage :: "uint32_t \<Rightarrow> CallbackNotifier \<Rightarrow> CallbackNotifier" where
  "disableMessage msg_type s = s\<lparr>mMessageEnabler := mMessageEnabler s AND NOT msg_type\<rparr>"

text \<open>
  \<open>enableVideoRecording\<close>: \<open>fps\<close> is a 32-bit \<open>int\<close>, widened to \<open>long long\<close> for the
  division \<open>1000000000LL / fps\<close>, which truncates towards zero (\<open>sdiv\<close>) and is a
  fault for \<open>fps = 0\<close>.  The method has no other exit than \<open>return NO_ERROR\<close>.
\<close>

definition enableVideoRecording ::
  "32 word \<Rightarrow> CallbackNotifier \<Rightarrow> fault + (status_t \<times> CallbackNotifier)" where
  "enableVideoRecording fps s =
     (if sint fps = 0 then Inl DivisionByZero
      else Inr (NO_ERROR,
                s\<lparr>mVideoRecEnabled := True,
                  mLastFrameTimestamp := 0,
                  mFrameRefreshFreq := word_of_int (1000000000 sdiv sint fps)\<rparr>))"

definition disableVideoRecording :: "CallbackNotifier \<Rightarrow> CallbackNotifier" where
  "disableVideoRecording s =
     s\<lparr>mVideoRecEnabled := False, mLastFrameTimestamp := 0, mFrameRefreshFreq := 0\<rparr>"

text \<open>
  The loop of \<open>releaseRecordingFrame\<close> over \<open>mCameraMemoryTs\<close>: at the first entry whose
  \<open>data\<close> is \<open>opaque\<close> it calls the entry's \<open>release\<close>, erases the entry and breaks.
  The result is the list that remains and the calls made.
\<close>

fun releaseRecordingFrame_loop ::
  "pointer \<Rightarrow> camera_memory_t list \<Rightarrow> camera_memory_t list \<times> event list" where
  "releaseRecordingFrame_loop opaque [] = ([], [])"
| "releaseRecordingFrame_loop opaque (it # rest) =
     (if data it = opaque then (rest, [ReleaseCall it])
      else (case releaseRecordingFrame_loop opaque rest of
              (rest', evs) \<Rightarrow> (it # rest', evs)))"

definition releaseRecordingFrame ::
  "pointer \<Rightarrow> CallbackNotifier \<Rightarrow> CallbackNotifier \<times> event list" where
  "releaseRecordingFrame opaque s =
     (case releaseRecordingFrame_loop opaque (mCameraMemoryTs s) of
        (ms, evs) \<Rightarrow> (s\<lparr>mCameraMemoryTs := ms\<rparr>, evs))"

text \<open>\<open>autoFocusComplete\<close> calls \<open>mNotifyCB\<close> with no test of the pointer or of the mask.\<close>

definition autoFocusComplete :: "CallbackNotifier \<Rightarrow> fault + event list" where
  "autoFocusComplete s =
     (if mNotifyCB s = None then Inl NullFunctionCall
      else Inr [NotifyCall CAMERA_MSG_FOCUS 1 0 (mCBOpaque s)])"

definition storeMetaDataInBuffers :: "bool \<Rightarrow> status_t" where
  "storeMetaDataInBuffers enable = (if enable then INVALID_OPERATION else NO_ERROR)"

definition cleanupCBNotifier :: "CallbackNotifier \<Rightarrow> CallbackNotifier" where
  "cleanupCBNotifier s =
     s\<lparr>mMessageEnabler := 0,
       mNotifyCB := None,
       mDataCB := None,
       mDataCBTimestamp := None,
       mGetMemoryCB := None,
       mCBOpaque := None,
       mLastFrameTimestamp := 0,
       mFrameRefreshFreq := 0,
       mJpegQuality := 90,
       mVideoRecEnabled := False,
       mTakingPicture := False\<rparr>"

subsection \<open>Inline methods of the class declaration\<close>

text \<open>
  Modelled from the spec: \<open>isMessageEnabled\<close>, declared in CallbackNotifier.h, which is
  not among the sources.  The spec describes it as a read of the message mask that gates
  a notification kind: the kind is enabled when its bit is set in the mask.
\<close>

definition isMessageEnabled :: "uint32_t \<Rightarrow> CallbackNotifier \<Rightarrow> bool" where
  "isMessageEnabled msg_type s \<longleftrightarrow> mMessageEnabler s AND msg_type \<noteq> 0"

text \<open>
  Modelled from the spec: \<open>isVideoRecordingEnabled\<close>, declared in CallbackNotifier.h.
  The spec's "recording is active" is the flag that \<open>enableVideoRecording\<close> sets and
  \<open>disableVideoRecording\<close> clears.
\<close>

definition isVideoRecordingEnabled :: "CallbackNotifier \<Rightarrow> bool" where
  "isVideoRecordingEnabled s \<longleftrightarrow> mVideoRecEnabled s"

text \<open>
  Modelled from the spec: \<open>setTakingPicture\<close>, declared in CallbackNotifier.h, the
  still-capture request that sets the capture-intent flag.
\<close>

definition setTakingPicture :: "bool \<Rightarrow> CallbackNotifier \<Rightarrow> CallbackNotifier" where
  "setTakingPicture taking s = s\<lparr>mTakingPicture := taking\<rparr>"

subsection \<open>Pacing\<close>

text \<open>
  \<open>isNewVideoFrameTime\<close>: the comparison is the signed one of \<open>nsecs_t\<close>, on the
  difference as the machine computes it.
\<close>

definition isNewVideoFrameTime :: "nsecs_t \<Rightarrow> CallbackNotifier \<Rightarrow> bool \<times> CallbackNotifier" where
  "isNewVideoFrameTime timestamp s =
     (if mFrameRefreshFreq s \<le>s timestamp - mLastFrameTimestamp s
      then (True, s\<lparr>mLastFrameTimestamp := timestamp\<rparr>)
      else (False, s))"

definition onCameraDeviceError :: "int \<Rightarrow> CallbackNotifier \<Rightarrow> event list" where
  "onCameraDeviceError err s =
     (if isMessageEnabled CAMERA_MSG_ERROR s \<and> mNotifyCB s \<noteq> None
      then [NotifyCall CAMERA_MSG_ERROR err 0 (mCBOpaque s)]
      else [])"

subsection \<open>Frame dispatch\<close>

text \<open>
  \<open>onNextFrameAvailable\<close> is three \<open>if\<close> blocks in a row; each is a function here, from
  the object to the updated object and the calls made, or to a fault.  The first block
  (lines 224 to 237) delivers a video frame.  The \<open>&&\<close> of its condition evaluates
  \<open>isNewVideoFrameTime\<close>, which updates the pacing state, only when the two tests
  before it hold.  The pointer \<open>frame\<close> is that of a frame of the device: what \<open>memcpy\<close>
  does with a NULL source is not modelled, and the properties of the dispatch are stated
  for frames that are not NULL.
\<close>

definition videoFrameBlock ::
  "pointer \<Rightarrow> nsecs_t \<Rightarrow> frame_env \<Rightarrow> CallbackNotifier \<Rightarrow> fault + (CallbackNotifier \<times> event list)" where
  "videoFrameBlock frame timestamp camera_dev s =
     (if isMessageEnabled CAMERA_MSG_VIDEO_FRAME s \<and> isVideoRecordingEnabled s
      then (case isNewVideoFrameTime timestamp s of
              (False, s1) \<Rightarrow> Inr (s1, [])
            | (True, s1) \<Rightarrow>
                if mGetMemoryCB s1 = None then Inl NullFunctionCall
                else (case videoMemory camera_dev of
                        None \<Rightarrow> Inr (s1, [GetMemoryCall (getFrameBufferSize camera_dev) None])
                      | Some cam_buff \<Rightarrow>
                          if data cam_buff \<noteq> None
                          then if mDataCBTimestamp s1 = None then Inl NullFunctionCall
                               else Inr (s1\<lparr>mCameraMemoryTs := mCameraMemoryTs s1 @ [cam_buff]\<rparr>,
                                         [GetMemoryCall (getFrameBufferSize camera_dev) (Some cam_buff),
                                          MemcpyCall cam_buff frame (getFrameBufferSize camera_dev),
                                          DataTimestampCall timestamp CAMERA_MSG_VIDEO_FRAME cam_buff
                                            (mCBOpaque s1),
                                          PushBackCall cam_buff])
                          else Inr (s1, [GetMemoryCall (getFrameBufferSize camera_dev)
                                           (Some cam_buff)])))
      else Inr (s, []))"

text \<open>The second block (lines 239 to 249) delivers a preview frame and releases its block.\<close>

definition previewFrameBlock ::
  "pointer \<Rightarrow> frame_env \<Rightarrow> CallbackNotifier \<Rightarrow> fault + event list" where
  "previewFrameBlock frame camera_dev s =
     (if isMessageEnabled CAMERA_MSG_PREVIEW_FRAME s
      then if mGetMemoryCB s = None then Inl NullFunctionCall
           else (case previewMemory camera_dev of
                   None \<Rightarrow> Inr [GetMemoryCall (getFrameBufferSize camera_dev) None]
                 | Some cam_buff \<Rightarrow>
                     if data cam_buff \<noteq> None
                     then if mDataCB s = None then Inl NullFunctionCall
                          else Inr [GetMemoryCall (getFrameBufferSize camera_dev) (Some cam_buff),
                                    MemcpyCall cam_buff frame (getFrameBufferSize camera_dev),
                                    DataCall CAMERA_MSG_PREVIEW_FRAME cam_buff (mCBOpaque s),
                                    ReleaseCall cam_buff]
                     else Inr [GetMemoryCall (getFrameBufferSize camera_dev) (Some cam_buff)])
      else Inr [])"

text \<open>
  The compressed-image step of the third block (lines 265 to 309): EXIF data, the
  thumbnail when both of its dimensions are positive, compression, delivery.
\<close>

definition compressedImageStep :: "frame_env \<Rightarrow> CallbackNotifier \<Rightarrow> fault + event list" where
  "compressedImageStep camera_dev s =
     (let exifData = createExifData camera_dev;
          width = getFrameWidth camera_dev;
          height = getFrameHeight camera_dev;
          thumbWidth = KEY_JPEG_THUMBNAIL_WIDTH (mCameraParameters s);
          thumbHeight = KEY_JPEG_THUMBNAIL_HEIGHT (mCameraParameters s);
          thumbnail =
            (if thumbWidth > 0 \<and> thumbHeight > 0
             then [CreateThumbnailCall width height thumbWidth thumbHeight (mJpegQuality s)
                     exifData (createThumbnail camera_dev)]
             else []);
          res = compressRawImage camera_dev;
          compress = [CompressRawImageCall width height (mJpegQuality s) exifData res]
      in if res = NO_ERROR
         then if mGetMemoryCB s = None then Inl NullFunctionCall
              else (case jpegMemory camera_dev of
                      None \<Rightarrow>
                        Inr ([CreateExifDataCall exifData] @ thumbnail @ compress @
                             [GetMemoryCall (getCompressedSize camera_dev) None,
                              FreeExifDataCall exifData])
                    | Some jpeg_buff \<Rightarrow>
                        if data jpeg_buff \<noteq> None
                        then if mDataCB s = None then Inl NullFunctionCall
                             else Inr ([CreateExifDataCall exifData] @ thumbnail @ compress @
                                       [GetMemoryCall (getCompressedSize camera_dev) (Some jpeg_buff),
                                        GetCompressedImageCall jpeg_buff,
                                        DataCall CAMERA_MSG_COMPRESSED_IMAGE jpeg_buff (mCBOpaque s),
                                        ReleaseCall jpeg_buff,
                                        FreeExifDataCall exifData])
                        else Inr ([CreateExifDataCall exifData] @ thumbnail @ compress @
                                  [GetMemoryCall (getCompressedSize camera_dev) (Some jpeg_buff),
                                   FreeExifDataCall exifData]))
         else Inr ([CreateExifDataCall exifData] @ thumbnail @ compress @
                   [FreeExifDataCall exifData]))"

text \<open>The two notifications that come before the compressed image (lines 259 to 264).\<close>

definition shutterStep :: "CallbackNotifier \<Rightarrow> fault + event list" where
  "shutterStep s =
     (if isMessageEnabled CAMERA_MSG_SHUTTER s
      then if mNotifyCB s = None then Inl NullFunctionCall
           else Inr [NotifyCall CAMERA_MSG_SHUTTER 0 0 (mCBOpaque s)]
      else Inr [])"

definition rawImageNotifyStep :: "CallbackNotifier \<Rightarrow> fault + event list" where
  "rawImageNotifyStep s =
     (if isMessageEnabled CAMERA_MSG_RAW_IMAGE_NOTIFY s
      then if mNotifyCB s = None then Inl NullFunctionCall
           else Inr [NotifyCall CAMERA_MSG_RAW_IMAGE_NOTIFY 0 0 (mCBOpaque s)]
      else Inr [])"

text \<open>The third block (lines 251 to 310): the flag is cleared before any call is made.\<close>

definition takingPictureBlock ::
  "frame_env \<Rightarrow> CallbackNotifier \<Rightarrow> fault + (CallbackNotifier \<times> event list)" where
  "takingPictureBlock camera_dev s =
     (if mTakingPicture s
      then (let s1 = s\<lparr>mTakingPicture := False\<rparr> in
            case shutterStep s1 of
              Inl f \<Rightarrow> Inl f
            | Inr shutter \<Rightarrow>
                (case rawImageNotifyStep s1 of
                   Inl f \<Rightarrow> Inl f
                 | Inr raw_notify \<Rightarrow>
                     if isMessageEnabled CAMERA_MSG_COMPRESSED_IMAGE s1
                     then (case compressedImageStep camera_dev s1 of
                             Inl f \<Rightarrow> Inl f
                           | Inr compressed \<Rightarrow> Inr (s1, shutter @ raw_notify @ compressed))
                     else Inr (s1, shutter @ raw_notify)))
      else Inr (s, []))"

definition onNextFrameAvailable ::
  "pointer \<Rightarrow> nsecs_t \<Rightarrow> frame_env \<Rightarrow> CallbackNotifier \<Rightarrow> fault + (CallbackNotifier \<times> event list)" where
  "onNextFrameAvailable frame timestamp camera_dev s =
     (case videoFrameBlock frame timestamp camera_dev s of
        Inl f \<Rightarrow> Inl f
      | Inr (s1, video) \<Rightarrow>
          (case previewFrameBlock frame camera_dev s1 of
             Inl f \<Rightarrow> Inl f
           | Inr preview \<Rightarrow>
               (case takingPictureBlock camera_dev s1 of
                  Inl f \<Rightarrow> Inl f
                | Inr (s2, picture) \<Rightarrow> Inr (s2, video @ preview @ picture))))"

text \<open>
  A run of calls of \<open>onNextFrameAvailable\<close>, one per element of the list (frame pointer,
  timestamp, and what the collaborators answer), with no other method in between.  The
  result is the final object and the trace of each call.
\<close>

fun onNextFramesAvailable ::
  "(pointer \<times> nsecs_t \<times> frame_env) list \<Rightarrow> CallbackNotifier \<Rightarrow>
     fault + (CallbackNotifier \<times> event list list)" where
  "onNextFramesAvailable [] s = Inr (s, [])"
| "onNextFramesAvailable ((frame, timestamp, camera_dev) # frames) s =
     (case onNextFrameAvailable frame timestamp camera_dev s of
        Inl f \<Rightarrow> Inl f
      | Inr (s1, evs) \<Rightarrow>
          (case onNextFramesAvailable frames s1 of
             Inl f \<Rightarrow> Inl f
           | Inr (s2, traces) \<Rightarrow> Inr (s2, evs # traces)))"

subsection \<open>Observations on traces\<close>

text \<open>
  The calls that only the still-capture block makes: the shutter and raw-image-notify
  notifications, the compressed-image delivery, and the calls of the EXIF, thumbnail and
  compressor collaborators.  (The allocator and \<open>release\<close> are called by the other
  blocks as well.)
\<close>

fun pictureEvent :: "event \<Rightarrow> bool" where
  "pictureEvent (NotifyCall msg ext1 ext2 user) \<longleftrightarrow>
     msg = CAMERA_MSG_SHUTTER \<or> msg = CAMERA_MSG_RAW_IMAGE_NOTIFY"
| "pictureEvent (DataCall msg mem user) \<longleftrightarrow> msg = CAMERA_MSG_COMPRESSED_IMAGE"
| "pictureEvent (CreateExifDataCall exif) \<longleftrightarrow> True"
| "pictureEvent (CreateThumbnailCall w h tw th q exif ok) \<longleftrightarrow> True"
| "pictureEvent (CompressRawImageCall w h q exif res) \<longleftrightarrow> True"
| "pictureEvent (GetCompressedImageCall mem) \<longleftrightarrow> True"
| "pictureEvent (FreeExifDataCall exif) \<longleftrightarrow> True"
| "pictureEvent (GetMemoryCall n mem) \<longleftrightarrow> False"
| "pictureEvent (MemcpyCall mem frame n) \<longleftrightarrow> False"
| "pictureEvent (DataTimestampCall t msg mem user) \<longleftrightarrow> False"
| "pictureEvent (ReleaseCall mem) \<longleftrightarrow> False"
| "pictureEvent (PushBackCall mem) \<longleftrightarrow> False"

text \<open>The three client notifications of the still-capture sequence.\<close>

fun pictureNotification :: "event \<Rightarrow> bool" where
  "pictureNotification (NotifyCall msg ext1 ext2 user) \<longleftrightarrow>
     msg = CAMERA_MSG_SHUTTER \<or> msg = CAMERA_MSG_RAW_IMAGE_NOTIFY"
| "pictureNotification (DataCall msg mem user) \<longleftrightarrow> msg = CAMERA_MSG_COMPRESSED_IMAGE"
| "pictureNotification e \<longleftrightarrow> False"

fun isDataTimestampCall :: "event \<Rightarrow> bool" where
  "isDataTimestampCall (DataTimestampCall t msg mem user) \<longleftrightarrow> True"
| "isDataTimestampCall e \<longleftrightarrow> False"

fun isPushBackCall :: "event \<Rightarrow> bool" where
  "isPushBackCall (PushBackCall mem) \<longleftrightarrow> True"
| "isPushBackCall e \<longleftrightarrow> False"

fun isExifLifetimeCall :: "event \<Rightarrow> bool" where
  "isExifLifetimeCall (CreateExifDataCall exif) \<longleftrightarrow> True"
| "isExifLifetimeCall (FreeExifDataCall exif) \<longleftrightarrow> True"
| "isExifLifetimeCall e \<longleftrightarrow> False"

text \<open>The timestamps of the video frames a trace delivers to the client.\<close>

fun videoFrameTimestamps :: "event list \<Rightarrow> nsecs_t list" where
  "videoFrameTimestamps [] = []"
| "videoFrameTimestamps (DataTimestampCall t msg mem user # evs) =
     (if msg = CAMERA_MSG_VIDEO_FRAME then t # videoFrameTimestamps evs
      else videoFrameTimestamps evs)"
| "videoFrameTimestamps (e # evs) = videoFrameTimestamps evs"

text \<open>
  Recording is started at \<open>fps\<close> and the frames are dispatched: the timestamps for
  which the video callback fires.
\<close>

definition recordedTimestamps ::
  "32 word \<Rightarrow> (pointer \<times> nsecs_t \<times> frame_env) list \<Rightarrow> CallbackNotifier \<Rightarrow> fault + nsecs_t list" where
  "recordedTimestamps fps frames s =
     (case enableVideoRecording fps s of
        Inl f \<Rightarrow> Inl f
      | Inr (status, s1) \<Rightarrow>
          (case onNextFramesAvailable frames s1 of
             Inl f \<Rightarrow> Inl f
           | Inr (s2, traces) \<Rightarrow> Inr (concat (map videoFrameTimestamps traces))))"

subsection \<open>A concrete notifier and device\<close>

definition exampleParameters :: CameraParameters where
  "exampleParameters = \<lparr>KEY_JPEG_THUMBNAIL_WIDTH = 160, KEY_JPEG_THUMBNAIL_HEIGHT = 120\<rparr>"

text \<open>A notifier with its four callbacks and the context registered.\<close>

definition exampleNotifier :: CallbackNotifier where
  "exampleNotifier =
     setCallbacks (Some 1) (Some 2) (Some 3) (Some 4) (Some 5)
       (CallbackNotifier_new exampleParameters)"

text \<open>A 640 by 480 device whose allocator and compressor succeed.\<close>

definition exampleDevice :: frame_env where
  "exampleDevice =
     \<lparr>getFrameBufferSize = 460800, getFrameWidth = 640, getFrameHeight = 480,
      videoMemory = Some \<lparr>handle = 100, data = Some 1000\<rparr>,
      previewMemory = Some \<lparr>handle = 200, data = Some 2000\<rparr>,
      jpegMemory = Some \<lparr>handle = 300, data = Some 3000\<rparr>,
      createExifData = 7, createThumbnail = True,
      compressRawImage = NO_ERROR, getCompressedSize = 50000\<rparr>"

text \<open>
  The notifier with the video-frame message enabled, recording at 30 frames per second.
\<close>

definition exampleRecorder :: CallbackNotifier where
  "exampleRecorder =
     (enableMessage CAMERA_MSG_VIDEO_FRAME exampleNotifier)
       \<lparr>mVideoRecEnabled := True, mLastFrameTimestamp := 0, mFrameRefreshFreq := 33333333\<rparr>"

text \<open>
  The notifier with the shutter, raw-image-notify and compressed-image messages enabled.
\<close>

definition examplePhotographer :: CallbackNotifier where
  "examplePhotographer =
     enableMessage
       (CAMERA_MSG_SHUTTER OR CAMERA_MSG_RAW_IMAGE_NOTIFY OR CAMERA_MSG_COMPRESSED_IMAGE)
       exampleNotifier"

section \<open>Properties\<close>

subsection \<open>Facts about the blocks of the dispatch\<close>

lemma previewFrameBlock_null_allocator:
  "isMessageEnabled CAMERA_MSG_PREVIEW_FRAME s \<Longrightarrow> mGetMemoryCB s = None \<Longrightarrow>
     previewFrameBlock frame camera_dev s = Inl NullFunctionCall"
  by (simp add: previewFrameBlock_def)

lemma videoFrameBlock_keeps:
  "videoFrameBlock frame timestamp camera_dev s = Inr (s1, video) \<Longrightarrow>
     mGetMemoryCB s1 = mGetMemoryCB s \<and> mMessageEnabler s1 = mMessageEnabler s \<and>
     mTakingPicture s1 = mTakingPicture s \<and> mCBOpaque s1 = mCBOpaque s \<and>
     mNotifyCB s1 = mNotifyCB s \<and> mDataCB s1 = mDataCB s \<and>
     mDataCBTimestamp s1 = mDataCBTimestamp s \<and>
     mCameraParameters s1 = mCameraParameters s \<and> mJpegQuality s1 = mJpegQuality s"
  by (auto simp: videoFrameBlock_def isNewVideoFrameTime_def
      split: if_splits option.splits)

subsection \<open>Cleanup\<close>

text \<open>
  Claim C9.  For every prior state, \<open>cleanupCBNotifier\<close> resets the message mask to
  empty, sets the four callback endpoints and the context to NULL, resets the pacing
  state to (0, 0), resets the JPEG quality to its default (the constructor's 90), and
  clears the recording-active and capture-intent flags, while the registry of outstanding
  buffers \<open>mCameraMemoryTs\<close> is left exactly as it was.  The method makes no call, so no
  entry is released.
\<close>

theorem cleanupCBNotifier_resets:
  "mMessageEnabler (cleanupCBNotifier s) = 0 \<and>
   mNotifyCB (cleanupCBNotifier s) = None \<and>
   mDataCB (cleanupCBNotifier s) = None \<and>
   mDataCBTimestamp (cleanupCBNotifier s) = None \<and>
   mGetMemoryCB (cleanupCBNotifier s) = None \<and>
   mCBOpaque (cleanupCBNotifier s) = None \<and>
   mLastFrameTimestamp (cleanupCBNotifier s) = 0 \<and>
   mFrameRefreshFreq (cleanupCBNotifier s) = 0 \<and>
   mJpegQuality (cleanupCBNotifier s) = mJpegQuality (CallbackNotifier_new params) \<and>
   mJpegQuality (cleanupCBNotifier s) = 90 \<and>
   \<not> mVideoRecEnabled (cleanupCBNotifier s) \<and>
   \<not> mTakingPicture (cleanupCBNotifier s) \<and>
   mCameraMemoryTs (cleanupCBNotifier s) = mCameraMemoryTs s"
  by (simp add: cleanupCBNotifier_def CallbackNotifier_new_def)

subsection \<open>Pacing of video frames\<close>

lemma sint_diff_representable:
  fixes a b :: nsecs_t
  assumes "- (2 ^ 63) \<le> sint a - sint b" and "sint a - sint b < 2 ^ 63"
  shows "sint (a - b) = sint a - sint b"
  using assms by (simp add: sint_word_diff signed_take_bit_int_eq_self)

lemma isNewVideoFrameTime_fst:
  "fst (isNewVideoFrameTime t s) \<longleftrightarrow> mFrameRefreshFreq s \<le>s t - mLastFrameTimestamp s"
  by (simp add: isNewVideoFrameTime_def)

lemma isNewVideoFrameTime_snd:
  "snd (isNewVideoFrameTime t s) =
     (if fst (isNewVideoFrameTime t s) then s\<lparr>mLastFrameTimestamp := t\<rparr> else s)"
  by (simp add: isNewVideoFrameTime_def)

text \<open>
  Claim C3.  For every timestamp \<open>t\<close> and every pacing state, \<open>isNewVideoFrameTime t\<close>
  returns true if and only if \<open>t - mLastFrameTimestamp >= mFrameRefreshFreq\<close>, the
  difference and the signed comparison being those of \<open>nsecs_t\<close>; exactly when it returns
  true it sets \<open>mLastFrameTimestamp\<close> to \<open>t\<close>, and otherwise the state is unchanged.
  Whenever the integer difference of the two timestamps is representable in 64 bits the
  test is the comparison of integers.  Consequently, of two calls in a row with
  timestamps \<open>t1 < t2\<close> and \<open>t2 - t1\<close> below the interval at most one is admitted, and
  a call with \<open>t2 - t1\<close> at least the interval that follows an admitted \<open>t1\<close> is
  admitted.
\<close>

theorem isNewVideoFrameTime_admission:
  "(fst (isNewVideoFrameTime t s) \<longleftrightarrow> mFrameRefreshFreq s \<le>s t - mLastFrameTimestamp s) \<and>
   snd (isNewVideoFrameTime t s) =
     (if fst (isNewVideoFrameTime t s) then s\<lparr>mLastFrameTimestamp := t\<rparr> else s) \<and>
   (- (2 ^ 63) \<le> sint t - sint (mLastFrameTimestamp s) \<and>
    sint t - sint (mLastFrameTimestamp s) < 2 ^ 63 \<longrightarrow>
      (fst (isNewVideoFrameTime t s) \<longleftrightarrow>
         sint (mFrameRefreshFreq s) \<le> sint t - sint (mLastFrameTimestamp s))) \<and>
   (sint t1 < sint t2 \<and> sint t2 - sint t1 < sint (mFrameRefreshFreq s) \<longrightarrow>
      \<not> (fst (isNewVideoFrameTime t1 s) \<and>
         fst (isNewVideoFrameTime t2 (snd (isNewVideoFrameTime t1 s))))) \<and>
   (fst (isNewVideoFrameTime t1 s) \<and> mFrameRefreshFreq s \<le>s t2 - t1 \<longrightarrow>
      fst (isNewVideoFrameTime t2 (snd (isNewVideoFrameTime t1 s))))"
proof (intro conjI impI)
  show "fst (isNewVideoFrameTime t s) \<longleftrightarrow> mFrameRefreshFreq s \<le>s t - mLastFrameTimestamp s"
    by (rule isNewVideoFrameTime_fst)
  show "snd (isNewVideoFrameTime t s) =
     (if fst (isNewVideoFrameTime t s) then s\<lparr>mLastFrameTimestamp := t\<rparr> else s)"
    by (rule isNewVideoFrameTime_snd)
next
  assume "- (2 ^ 63) \<le> sint t - sint (mLastFrameTimestamp s) \<and>
    sint t - sint (mLastFrameTimestamp s) < 2 ^ 63"
  then have "sint (t - mLastFrameTimestamp s) = sint t - sint (mLastFrameTimestamp s)"
    by (simp add: sint_diff_representable)
  then show "fst (isNewVideoFrameTime t s) \<longleftrightarrow>
         sint (mFrameRefreshFreq s) \<le> sint t - sint (mLastFrameTimestamp s)"
    by (simp add: isNewVideoFrameTime_fst word_sle_eq)
next
  assume h: "sint t1 < sint t2 \<and> sint t2 - sint t1 < sint (mFrameRefreshFreq s)"
  have "sint (mFrameRefreshFreq s) < 2 ^ 63"
    using sint_lt [of "mFrameRefreshFreq s"] by simp
  with h have d: "sint (t2 - t1) = sint t2 - sint t1"
    by (intro sint_diff_representable) simp_all
  show "\<not> (fst (isNewVideoFrameTime t1 s) \<and>
         fst (isNewVideoFrameTime t2 (snd (isNewVideoFrameTime t1 s))))"
  proof
    assume a: "fst (isNewVideoFrameTime t1 s) \<and>
         fst (isNewVideoFrameTime t2 (snd (isNewVideoFrameTime t1 s)))"
    then have "snd (isNewVideoFrameTime t1 s) = s\<lparr>mLastFrameTimestamp := t1\<rparr>"
      by (simp add: isNewVideoFrameTime_snd)
    with a have "mFrameRefreshFreq s \<le>s t2 - t1"
      by (simp add: isNewVideoFrameTime_fst)
    with d h show False by (simp add: word_sle_eq)
  qed
next
  assume a: "fst (isNewVideoFrameTime t1 s) \<and> mFrameRefreshFreq s \<le>s t2 - t1"
  then have "snd (isNewVideoFrameTime t1 s) = s\<lparr>mLastFrameTimestamp := t1\<rparr>"
    by (simp add: isNewVideoFrameTime_snd)
  with a show "fst (isNewVideoFrameTime t2 (snd (isNewVideoFrameTime t1 s)))"
    by (simp add: isNewVideoFrameTime_fst)
qed

theorem isNewVideoFrameTime_admission_witness:
  "(- (2 ^ 63) \<le> sint (100 :: nsecs_t)
      - sint (mLastFrameTimestamp (exampleNotifier\<lparr>mFrameRefreshFreq := 100\<rparr>)) \<and>
    sint (100 :: nsecs_t)
      - sint (mLastFrameTimestamp (exampleNotifier\<lparr>mFrameRefreshFreq := 100\<rparr>)) < 2 ^ 63) \<and>
   (sint (100 :: nsecs_t) < sint (150 :: nsecs_t) \<and>
    sint (150 :: nsecs_t) - sint (100 :: nsecs_t)
      < sint (mFrameRefreshFreq (exampleNotifier\<lparr>mFrameRefreshFreq := 100\<rparr>))) \<and>
   fst (isNewVideoFrameTime 100 (exampleNotifier\<lparr>mFrameRefreshFreq := 100\<rparr>)) \<and>
   \<not> fst (isNewVideoFrameTime 150
           (snd (isNewVideoFrameTime 100 (exampleNotifier\<lparr>mFrameRefreshFreq := 100\<rparr>))))"
  using isNewVideoFrameTime_admission
    [of 100 "exampleNotifier\<lparr>mFrameRefreshFreq := 100\<rparr>" 100 150]
  by (simp add: exampleNotifier_def setCallbacks_def CallbackNotifier_new_def
      isNewVideoFrameTime_def word_sle_eq)

subsection \<open>Starting the recording\<close>

lemma refresh_interval_representable:
  assumes "sint (fps :: 32 word) \<noteq> 0"
  shows "sint (word_of_int (1000000000 sdiv sint fps) :: nsecs_t) = 1000000000 sdiv sint fps"
proof -
  have "0 \<le> (1000000000 :: int) div \<bar>sint fps\<bar>"
    using assms by (simp add: pos_imp_zdiv_nonneg_iff)
  moreover have "(1000000000 :: int) div \<bar>sint fps\<bar> \<le> 1000000000"
    using zdiv_mono2 [of 1000000000 1 "\<bar>sint fps\<bar>"] assms by simp
  ultimately have "- 1000000000 \<le> (1000000000 :: int) sdiv sint fps"
    and "(1000000000 :: int) sdiv sint fps \<le> 1000000000"
    by (auto simp: signed_divide_int_def sgn_if)
  then have "signed_take_bit 63 ((1000000000 :: int) sdiv sint fps) = 1000000000 sdiv sint fps"
    by (intro signed_take_bit_int_eq_self) simp_all
  then show ?thesis by (simp add: sint_sbintrunc')
qed

text \<open>
  Claim C5, as amended.  For every \<open>fps\<close> other than 0, negative values included,
  \<open>enableVideoRecording\<close> returns \<open>NO_ERROR\<close>, marks recording active, resets
  \<open>mLastFrameTimestamp\<close> to 0 and sets the interval to \<open>1000000000 / fps\<close>, truncated
  towards zero, which is not positive when \<open>fps\<close> is negative.  In particular it returns
  success for every \<open>fps > 0\<close>.  Nothing is stated here about \<open>fps = 0\<close>.
\<close>

theorem enableVideoRecording_nonzero_fps:
  "sint fps \<noteq> 0 \<longrightarrow>
     enableVideoRecording fps s =
       Inr (NO_ERROR,
            s\<lparr>mVideoRecEnabled := True, mLastFrameTimestamp := 0,
              mFrameRefreshFreq := word_of_int (1000000000 sdiv sint fps)\<rparr>) \<and>
     sint (word_of_int (1000000000 sdiv sint fps) :: nsecs_t) = 1000000000 sdiv sint fps \<and>
     (sint fps < 0 \<longrightarrow> (1000000000 :: int) sdiv sint fps \<le> 0)"
proof
  assume nz: "sint fps \<noteq> 0"
  have "sint fps < 0 \<longrightarrow> (1000000000 :: int) sdiv sint fps \<le> 0"
    by (auto simp: signed_divide_int_def sgn_if pos_imp_zdiv_nonneg_iff)
  with nz refresh_interval_representable [OF nz]
  show "enableVideoRecording fps s =
       Inr (NO_ERROR,
            s\<lparr>mVideoRecEnabled := True, mLastFrameTimestamp := 0,
              mFrameRefreshFreq := word_of_int (1000000000 sdiv sint fps)\<rparr>) \<and>
     sint (word_of_int (1000000000 sdiv sint fps) :: nsecs_t) = 1000000000 sdiv sint fps \<and>
     (sint fps < 0 \<longrightarrow> (1000000000 :: int) sdiv sint fps \<le> 0)"
    by (simp add: enableVideoRecording_def)
qed

theorem enableVideoRecording_nonzero_fps_witness:
  "sint (- 7 :: 32 word) \<noteq> 0 \<and> sint (- 7 :: 32 word) < 0 \<and>
   enableVideoRecording (- 7) exampleNotifier =
     Inr (NO_ERROR,
          exampleNotifier\<lparr>mVideoRecEnabled := True, mLastFrameTimestamp := 0,
                            mFrameRefreshFreq := - 142857142\<rparr>) \<and>
   sint (30 :: 32 word) \<noteq> 0 \<and>
   enableVideoRecording 30 exampleNotifier =
     Inr (NO_ERROR,
          exampleNotifier\<lparr>mVideoRecEnabled := True, mLastFrameTimestamp := 0,
                            mFrameRefreshFreq := 33333333\<rparr>)"
  using enableVideoRecording_nonzero_fps [of "- 7" exampleNotifier]
    enableVideoRecording_nonzero_fps [of 30 exampleNotifier]
  by (simp add: signed_divide_int_def)

text \<open>
  Claim C5, as stated, says that every \<open>fps <= 0\<close> is rejected with an invalid-argument
  status and leaves the recording flag and the pacing state as they were.  At
  \<open>fps = -1\<close> the method returns \<open>NO_ERROR\<close>, with recording active and the interval
  set to -1000000000.
\<close>

theorem negative_fps_accepted_counterexample:
  "sint (- 1 :: 32 word) \<le> 0 \<and>
   enableVideoRecording (- 1) exampleNotifier =
     Inr (NO_ERROR,
          exampleNotifier\<lparr>mVideoRecEnabled := True, mLastFrameTimestamp := 0,
                            mFrameRefreshFreq := - 1000000000\<rparr>) \<and>
   mVideoRecEnabled exampleNotifier \<noteq> True \<and>
   mFrameRefreshFreq exampleNotifier \<noteq> - 1000000000"
  by (simp add: enableVideoRecording_def signed_divide_int_def exampleNotifier_def
      setCallbacks_def CallbackNotifier_new_def)

subsection \<open>NULL callbacks\<close>

text \<open>
  Claim C6.  The claim is that a NULL endpoint is never invoked by a dispatch operation.
  \<open>autoFocusComplete\<close> calls \<open>mNotifyCB\<close> untested, on a notifier that was just constructed
  and on one whose callbacks were registered as NULL; \<open>onNextFrameAvailable\<close> with the
  preview message enabled calls the NULL allocator.  Only \<open>onCameraDeviceError\<close> tests
  the pointer before the call.
\<close>

theorem null_callbacks_are_called:
  "autoFocusComplete (CallbackNotifier_new params) = Inl NullFunctionCall \<and>
   autoFocusComplete (setCallbacks None None None None None s) = Inl NullFunctionCall \<and>
   onNextFrameAvailable frame timestamp camera_dev
     (enableMessage CAMERA_MSG_PREVIEW_FRAME (setCallbacks None None None None None s))
     = Inl NullFunctionCall"
proof (intro conjI)
  show "autoFocusComplete (CallbackNotifier_new params) = Inl NullFunctionCall"
    by (simp add: autoFocusComplete_def CallbackNotifier_new_def)
  show "autoFocusComplete (setCallbacks None None None None None s) = Inl NullFunctionCall"
    by (simp add: autoFocusComplete_def setCallbacks_def)
  let ?s = "enableMessage CAMERA_MSG_PREVIEW_FRAME (setCallbacks None None None None None s)"
  have en: "isMessageEnabled CAMERA_MSG_PREVIEW_FRAME ?s"
    by (simp add: isMessageEnabled_def enableMessage_def CAMERA_MSG_PREVIEW_FRAME_def
        word_ao_absorbs)
  have null: "mGetMemoryCB ?s = None"
    by (simp add: enableMessage_def setCallbacks_def)
  show "onNextFrameAvailable frame timestamp camera_dev ?s = Inl NullFunctionCall"
  proof (cases "videoFrameBlock frame timestamp camera_dev ?s")
    case (Inl f)
    then have "f = NullFunctionCall"
      by (auto simp: videoFrameBlock_def split: if_splits option.splits prod.splits bool.splits)
    with Inl show ?thesis by (simp add: onNextFrameAvailable_def)
  next
    case (Inr r)
    obtain s1 video where r: "r = (s1, video)" by (cases r)
    from Inr r videoFrameBlock_keeps [of frame timestamp camera_dev ?s s1 video]
    have "mGetMemoryCB s1 = None" and "isMessageEnabled CAMERA_MSG_PREVIEW_FRAME s1"
      using en null by (simp_all add: isMessageEnabled_def)
    then have "previewFrameBlock frame camera_dev s1 = Inl NullFunctionCall"
      by (simp add: previewFrameBlock_null_allocator)
    with Inr r show ?thesis by (simp add: onNextFrameAvailable_def)
  qed
qed

subsection \<open>Release of recording frames\<close>

lemma releaseRecordingFrame_loop_no_match:
  "\<forall>m \<in> set ms. data m \<noteq> opaque \<Longrightarrow> releaseRecordingFrame_loop opaque ms = (ms, [])"
  by (induction ms) simp_all

lemma releaseRecordingFrame_loop_first_match:
  "\<exists>m \<in> set ms. data m = opaque \<Longrightarrow>
     \<exists>before it after. ms = before @ it # after \<and> (\<forall>m \<in> set before. data m \<noteq> opaque) \<and>
        data it = opaque \<and>
        releaseRecordingFrame_loop opaque ms = (before @ after, [ReleaseCall it])"
proof (induction ms)
  case Nil
  then show ?case by simp
next
  case (Cons m ms)
  show ?case
  proof (cases "data m = opaque")
    case True
    then have "m # ms = [] @ m # ms \<and> (\<forall>x \<in> set []. data x \<noteq> opaque) \<and> data m = opaque \<and>
        releaseRecordingFrame_loop opaque (m # ms) = ([] @ ms, [ReleaseCall m])"
      by simp
    then show ?thesis by blast
  next
    case False
    with Cons.prems have "\<exists>x \<in> set ms. data x = opaque" by auto
    with Cons.IH obtain before it after where
      ms: "ms = before @ it # after" and nb: "\<forall>x \<in> set before. data x \<noteq> opaque" and
      it: "data it = opaque" and
      run: "releaseRecordingFrame_loop opaque ms = (before @ after, [ReleaseCall it])"
      by blast
    from False ms nb it run
    have "m # ms = (m # before) @ it # after \<and> (\<forall>x \<in> set (m # before). data x \<noteq> opaque) \<and>
        data it = opaque \<and>
        releaseRecordingFrame_loop opaque (m # ms) = ((m # before) @ after, [ReleaseCall it])"
      by simp
    then show ?thesis by blast
  qed
qed

text \<open>
  Claim C7.  For every registry and every identity \<open>opaque\<close>: if no entry's payload
  pointer equals \<open>opaque\<close>, \<open>releaseRecordingFrame\<close> returns with the notifier
  unchanged and without a call; if some entry matches, it calls \<open>release\<close> once, on the
  first matching entry, and removes that entry and no other.  The registry shrinks by at
  most one entry.
\<close>

theorem releaseRecordingFrame_first_match:
  "((\<forall>m \<in> set (mCameraMemoryTs s). data m \<noteq> opaque) \<longrightarrow>
      releaseRecordingFrame opaque s = (s, [])) \<and>
   ((\<exists>m \<in> set (mCameraMemoryTs s). data m = opaque) \<longrightarrow>
      (\<exists>before it after.
         mCameraMemoryTs s = before @ it # after \<and>
         (\<forall>m \<in> set before. data m \<noteq> opaque) \<and> data it = opaque \<and>
         releaseRecordingFrame opaque s =
           (s\<lparr>mCameraMemoryTs := before @ after\<rparr>, [ReleaseCall it]))) \<and>
   length (mCameraMemoryTs s) - 1 \<le> length (mCameraMemoryTs (fst (releaseRecordingFrame opaque s))) \<and>
   length (mCameraMemoryTs (fst (releaseRecordingFrame opaque s))) \<le> length (mCameraMemoryTs s)"
proof -
  have none: "(\<forall>m \<in> set (mCameraMemoryTs s). data m \<noteq> opaque) \<longrightarrow>
      releaseRecordingFrame opaque s = (s, [])"
    by (simp add: releaseRecordingFrame_def releaseRecordingFrame_loop_no_match)
  have some: "(\<exists>m \<in> set (mCameraMemoryTs s). data m = opaque) \<longrightarrow>
      (\<exists>before it after.
         mCameraMemoryTs s = before @ it # after \<and>
         (\<forall>m \<in> set before. data m \<noteq> opaque) \<and> data it = opaque \<and>
         releaseRecordingFrame opaque s =
           (s\<lparr>mCameraMemoryTs := before @ after\<rparr>, [ReleaseCall it]))"
  proof
    assume "\<exists>m \<in> set (mCameraMemoryTs s). data m = opaque"
    from releaseRecordingFrame_loop_first_match [OF this]
    obtain before it after where
      "mCameraMemoryTs s = before @ it # after" "\<forall>m \<in> set before. data m \<noteq> opaque"
      "data it = opaque"
      "releaseRecordingFrame_loop opaque (mCameraMemoryTs s) = (before @ after, [ReleaseCall it])"
      by blast
    then have "mCameraMemoryTs s = before @ it # after \<and>
         (\<forall>m \<in> set before. data m \<noteq> opaque) \<and> data it = opaque \<and>
         releaseRecordingFrame opaque s =
           (s\<lparr>mCameraMemoryTs := before @ after\<rparr>, [ReleaseCall it])"
      by (simp add: releaseRecordingFrame_def)
    then show "\<exists>before it after.
         mCameraMemoryTs s = before @ it # after \<and>
         (\<forall>m \<in> set before. data m \<noteq> opaque) \<and> data it = opaque \<and>
         releaseRecordingFrame opaque s =
           (s\<lparr>mCameraMemoryTs := before @ after\<rparr>, [ReleaseCall it])"
      by blast
  qed
  have len: "length (mCameraMemoryTs s) - 1 \<le> length (mCameraMemoryTs (fst (releaseRecordingFrame opaque s))) \<and>
   length (mCameraMemoryTs (fst (releaseRecordingFrame opaque s))) \<le> length (mCameraMemoryTs s)"
  proof (cases "\<exists>m \<in> set (mCameraMemoryTs s). data m = opaque")
    case True
    with some obtain before it after where
      "mCameraMemoryTs s = before @ it # after"
      "releaseRecordingFrame opaque s =
           (s\<lparr>mCameraMemoryTs := before @ after\<rparr>, [ReleaseCall it])"
      by blast
    then show ?thesis by simp
  next
    case False
    with none have "releaseRecordingFrame opaque s = (s, [])" by blast
    then show ?thesis by simp
  qed
  from none some len show ?thesis by blast
qed

theorem releaseRecordingFrame_first_match_witness:
  "releaseRecordingFrame (Some 20) (exampleNotifier\<lparr>mCameraMemoryTs :=
        [\<lparr>handle = 1, data = Some 10\<rparr>, \<lparr>handle = 2, data = Some 20\<rparr>,
         \<lparr>handle = 3, data = Some 20\<rparr>]\<rparr>)
     = (exampleNotifier\<lparr>mCameraMemoryTs :=
          [\<lparr>handle = 1, data = Some 10\<rparr>, \<lparr>handle = 3, data = Some 20\<rparr>]\<rparr>,
        [ReleaseCall \<lparr>handle = 2, data = Some 20\<rparr>]) \<and>
   releaseRecordingFrame (Some 20)
       (exampleNotifier\<lparr>mCameraMemoryTs := [\<lparr>handle = 1, data = Some 10\<rparr>]\<rparr>)
     = (exampleNotifier\<lparr>mCameraMemoryTs := [\<lparr>handle = 1, data = Some 10\<rparr>]\<rparr>, [])"
proof -
  let ?s = "exampleNotifier\<lparr>mCameraMemoryTs :=
        [\<lparr>handle = 1, data = Some 10\<rparr>, \<lparr>handle = 2, data = Some 20\<rparr>,
         \<lparr>handle = 3, data = Some 20\<rparr>]\<rparr>"
  let ?u = "exampleNotifier\<lparr>mCameraMemoryTs := [\<lparr>handle = 1, data = Some 10\<rparr>]\<rparr>"
  have some: "\<exists>m \<in> set (mCameraMemoryTs ?s). data m = Some 20"
    by simp
  have none: "\<forall>m \<in> set (mCameraMemoryTs ?u). data m \<noteq> Some 20"
    by simp
  from releaseRecordingFrame_first_match [of ?s "Some 20"] some
  obtain before it after where
    split: "mCameraMemoryTs ?s = before @ it # after" and
    first: "\<forall>m \<in> set before. data m \<noteq> Some 20" "data it = Some 20" and
    run: "releaseRecordingFrame (Some 20) ?s =
            (?s\<lparr>mCameraMemoryTs := before @ after\<rparr>, [ReleaseCall it])"
    by blast
  from releaseRecordingFrame_first_match [of ?u "Some 20"] none
  have "releaseRecordingFrame (Some 20) ?u = (?u, [])"
    by blast
  moreover have "releaseRecordingFrame (Some 20) ?s =
     (exampleNotifier\<lparr>mCameraMemoryTs :=
          [\<lparr>handle = 1, data = Some 10\<rparr>, \<lparr>handle = 3, data = Some 20\<rparr>]\<rparr>,
        [ReleaseCall \<lparr>handle = 2, data = Some 20\<rparr>])"
    by (simp add: releaseRecordingFrame_def)
  ultimately show ?thesis by simp
qed

subsection \<open>The first frame after recording starts\<close>

lemma refresh_interval_of_positive_fps:
  assumes "0 < sint (fps :: 32 word)"
  shows "sint (word_of_int (1000000000 sdiv sint fps) :: nsecs_t) = 1000000000 div sint fps"
proof -
  have q: "(1000000000 :: int) sdiv sint fps = 1000000000 div sint fps"
    using assms by (simp add: signed_divide_int_def)
  have "0 \<le> (1000000000 :: int) div sint fps"
    using assms by (simp add: pos_imp_zdiv_nonneg_iff)
  moreover have "(1000000000 :: int) div sint fps \<le> 1000000000"
    using zdiv_mono2 [of 1000000000 1 "sint fps"] assms by simp
  ultimately have "signed_take_bit 63 ((1000000000 :: int) div sint fps) = 1000000000 div sint fps"
    by (intro signed_take_bit_int_eq_self) simp_all
  with q show ?thesis by (simp add: sint_sbintrunc')
qed

text \<open>
  Claim C4, as amended.  After \<open>enableVideoRecording fps\<close> with \<open>fps > 0\<close>, which
  succeeds, marks recording active and resets \<open>mLastFrameTimestamp\<close> to 0, the first frame
  passes the admission test if and only if its timestamp is at least the interval
  \<open>1000000000 div fps\<close>.  With recording started at 30 fps and frames, none of them
  NULL, at 0, 10 ms and 40 ms, the video callback fires for the frame at 40 ms only.
\<close>

theorem enableVideoRecording_first_frame:
  "(0 < sint fps \<longrightarrow>
      (\<exists>s1. enableVideoRecording fps s = Inr (NO_ERROR, s1) \<and>
            mVideoRecEnabled s1 \<and> mLastFrameTimestamp s1 = 0 \<and>
            (fst (isNewVideoFrameTime t s1) \<longleftrightarrow> 1000000000 div sint fps \<le> sint t))) \<and>
   recordedTimestamps 30
     [(Some frame, 0, exampleDevice), (Some frame, 10000000, exampleDevice),
      (Some frame, 40000000, exampleDevice)]
     (enableMessage CAMERA_MSG_VIDEO_FRAME exampleNotifier) = Inr [40000000]"
proof (intro conjI impI)
  assume pos: "0 < sint fps"
  let ?s1 = "s\<lparr>mVideoRecEnabled := True, mLastFrameTimestamp := 0,
               mFrameRefreshFreq := word_of_int (1000000000 sdiv sint fps)\<rparr>"
  from pos have "enableVideoRecording fps s = Inr (NO_ERROR, ?s1)"
    by (simp add: enableVideoRecording_def)
  moreover have "fst (isNewVideoFrameTime t ?s1) \<longleftrightarrow> 1000000000 div sint fps \<le> sint t"
    using refresh_interval_of_positive_fps [OF pos]
    by (simp add: isNewVideoFrameTime_def word_sle_eq)
  ultimately show "\<exists>s1. enableVideoRecording fps s = Inr (NO_ERROR, s1) \<and>
            mVideoRecEnabled s1 \<and> mLastFrameTimestamp s1 = 0 \<and>
            (fst (isNewVideoFrameTime t s1) \<longleftrightarrow> 1000000000 div sint fps \<le> sint t)"
    by simp
next
  show "recordedTimestamps 30
     [(Some frame, 0, exampleDevice), (Some frame, 10000000, exampleDevice),
      (Some frame, 40000000, exampleDevice)]
     (enableMessage CAMERA_MSG_VIDEO_FRAME exampleNotifier) = Inr [40000000]"
    by (simp add: recordedTimestamps_def enableVideoRecording_def signed_divide_int_def
        onNextFrameAvailable_def videoFrameBlock_def previewFrameBlock_def
        takingPictureBlock_def isMessageEnabled_def isVideoRecordingEnabled_def
        isNewVideoFrameTime_def enableMessage_def exampleNotifier_def setCallbacks_def
        CallbackNotifier_new_def exampleDevice_def word_sle_eq
        CAMERA_MSG_VIDEO_FRAME_def CAMERA_MSG_PREVIEW_FRAME_def)
qed

theorem enableVideoRecording_first_frame_witness:
  "0 < sint (30 :: 32 word) \<and>
   (\<exists>s1. enableVideoRecording 30 exampleNotifier = Inr (NO_ERROR, s1) \<and>
         fst (isNewVideoFrameTime 40000000 s1) \<and> \<not> fst (isNewVideoFrameTime 10000000 s1))"
  using enableVideoRecording_first_frame [of 30 exampleNotifier 40000000]
    enableVideoRecording_first_frame [of 30 exampleNotifier 10000000]
  by auto

text \<open>
  Claim C4, as stated, says that the first frame after enabling is admitted whatever its
  timestamp, and that frames at 0, 10 ms and 40 ms at 30 fps deliver the frames at 0 and
  40 ms.  The frame at 0 is not admitted: 0 - 0 is below the interval of 33333333 ns.
\<close>

theorem first_frame_at_zero_counterexample:
  "0 < sint (30 :: 32 word) \<and>
   enableVideoRecording 30 exampleNotifier =
     Inr (NO_ERROR, exampleNotifier\<lparr>mVideoRecEnabled := True, mLastFrameTimestamp := 0,
                                    mFrameRefreshFreq := 33333333\<rparr>) \<and>
   \<not> fst (isNewVideoFrameTime 0
          (exampleNotifier\<lparr>mVideoRecEnabled := True, mLastFrameTimestamp := 0,
                            mFrameRefreshFreq := 33333333\<rparr>)) \<and>
   recordedTimestamps 30
     [(Some 9, 0, exampleDevice), (Some 9, 10000000, exampleDevice),
      (Some 9, 40000000, exampleDevice)]
     (enableMessage CAMERA_MSG_VIDEO_FRAME exampleNotifier) \<noteq> Inr [0, 40000000]"
  by (simp add: recordedTimestamps_def enableVideoRecording_def signed_divide_int_def
        onNextFrameAvailable_def videoFrameBlock_def previewFrameBlock_def
        takingPictureBlock_def isMessageEnabled_def isVideoRecordingEnabled_def
        isNewVideoFrameTime_def enableMessage_def exampleNotifier_def setCallbacks_def
        CallbackNotifier_new_def exampleDevice_def word_sle_eq
        CAMERA_MSG_VIDEO_FRAME_def CAMERA_MSG_PREVIEW_FRAME_def)

subsection \<open>The blocks of the dispatch, one by one\<close>

lemma msg_distinct:
  "CAMERA_MSG_PREVIEW_FRAME \<noteq> CAMERA_MSG_COMPRESSED_IMAGE"
  "CAMERA_MSG_PREVIEW_FRAME \<noteq> CAMERA_MSG_SHUTTER"
  "CAMERA_MSG_PREVIEW_FRAME \<noteq> CAMERA_MSG_RAW_IMAGE_NOTIFY"
  "CAMERA_MSG_SHUTTER \<noteq> CAMERA_MSG_RAW_IMAGE_NOTIFY"
  by (simp_all add: CAMERA_MSG_PREVIEW_FRAME_def CAMERA_MSG_COMPRESSED_IMAGE_def
      CAMERA_MSG_SHUTTER_def CAMERA_MSG_RAW_IMAGE_NOTIFY_def)

lemma videoFrameBlock_events:
  "videoFrameBlock frame timestamp camera_dev s = Inr (s1, video) \<Longrightarrow>
     \<forall>e \<in> set video. \<not> pictureEvent e \<and> \<not> isExifLifetimeCall e"
  by (auto simp: videoFrameBlock_def split: if_splits option.splits prod.splits bool.splits)

lemma previewFrameBlock_events:
  "previewFrameBlock frame camera_dev s = Inr preview \<Longrightarrow>
     \<forall>e \<in> set preview. \<not> pictureEvent e \<and> \<not> isExifLifetimeCall e \<and>
        \<not> isDataTimestampCall e \<and> \<not> isPushBackCall e"
  by (auto simp: previewFrameBlock_def msg_distinct split: if_splits option.splits)


lemma shutterStep_events:
  "shutterStep s = Inr shutter \<Longrightarrow>
     shutter = (if isMessageEnabled CAMERA_MSG_SHUTTER s
                then [NotifyCall CAMERA_MSG_SHUTTER 0 0 (mCBOpaque s)] else [])"
  by (auto simp: shutterStep_def split: if_splits)

lemma rawImageNotifyStep_events:
  "rawImageNotifyStep s = Inr raw_notify \<Longrightarrow>
     raw_notify = (if isMessageEnabled CAMERA_MSG_RAW_IMAGE_NOTIFY s
                then [NotifyCall CAMERA_MSG_RAW_IMAGE_NOTIFY 0 0 (mCBOpaque s)] else [])"
  by (auto simp: rawImageNotifyStep_def split: if_splits)

lemma takingPictureBlock_idle:
  "\<not> mTakingPicture s \<Longrightarrow> takingPictureBlock camera_dev s = Inr (s, [])"
  by (simp add: takingPictureBlock_def)

lemma takingPictureBlock_state:
  "takingPictureBlock camera_dev s = Inr (s2, picture) \<Longrightarrow> s2 = s\<lparr>mTakingPicture := False\<rparr>"
  by (auto simp: takingPictureBlock_def Let_def split: if_splits sum.splits)


lemma onNextFrameAvailable_blocks:
  "onNextFrameAvailable frame timestamp camera_dev s = Inr (s', evs) \<Longrightarrow>
     \<exists>s1 video preview picture.
        videoFrameBlock frame timestamp camera_dev s = Inr (s1, video) \<and>
        previewFrameBlock frame camera_dev s1 = Inr preview \<and>
        takingPictureBlock camera_dev s1 = Inr (s', picture) \<and>
        evs = video @ preview @ picture"
  by (auto simp: onNextFrameAvailable_def split: sum.splits prod.splits)

lemma videoFrameBlock_returns:
  assumes "mDataCBTimestamp s \<noteq> None" "mGetMemoryCB s \<noteq> None"
  shows "videoFrameBlock frame timestamp camera_dev s \<noteq> Inl f"
  using assms
  by (auto simp: videoFrameBlock_def isNewVideoFrameTime_def
      split: if_splits option.splits)

lemma previewFrameBlock_returns:
  assumes "mDataCB s \<noteq> None" "mGetMemoryCB s \<noteq> None"
  shows "previewFrameBlock frame camera_dev s \<noteq> Inl f"
  using assms
  by (auto simp: previewFrameBlock_def split: if_splits option.splits)

lemma shutterStep_returns:
  "mNotifyCB s \<noteq> None \<Longrightarrow> shutterStep s \<noteq> Inl f"
  by (auto simp: shutterStep_def)

lemma rawImageNotifyStep_returns:
  "mNotifyCB s \<noteq> None \<Longrightarrow> rawImageNotifyStep s \<noteq> Inl f"
  by (auto simp: rawImageNotifyStep_def)

lemma compressedImageStep_returns:
  "mDataCB s \<noteq> None \<Longrightarrow> mGetMemoryCB s \<noteq> None \<Longrightarrow>
     compressedImageStep camera_dev s \<noteq> Inl f"
  by (cases "jpegMemory camera_dev") (auto simp: compressedImageStep_def Let_def)

lemma takingPictureBlock_returns:
  assumes "mNotifyCB s \<noteq> None" "mDataCB s \<noteq> None" "mGetMemoryCB s \<noteq> None"
  shows "takingPictureBlock camera_dev s \<noteq> Inl f"
proof (cases "mTakingPicture s")
  case False
  then show ?thesis by (simp add: takingPictureBlock_def)
next
  case True
  let ?s1 = "s\<lparr>mTakingPicture := False\<rparr>"
  from assms have cb: "mNotifyCB ?s1 \<noteq> None" "mDataCB ?s1 \<noteq> None" "mGetMemoryCB ?s1 \<noteq> None"
    by simp_all
  obtain shutter where sh: "shutterStep ?s1 = Inr shutter"
    using shutterStep_returns [OF cb(1)] by (cases "shutterStep ?s1") auto
  obtain raw_notify where rn: "rawImageNotifyStep ?s1 = Inr raw_notify"
    using rawImageNotifyStep_returns [OF cb(1)] by (cases "rawImageNotifyStep ?s1") auto
  obtain compressed where co: "compressedImageStep camera_dev ?s1 = Inr compressed"
    using compressedImageStep_returns [OF cb(2,3)]
    by (cases "compressedImageStep camera_dev ?s1") auto
  from True sh rn co show ?thesis
    by (simp add: takingPictureBlock_def Let_def)
qed

text \<open>With the four endpoints registered, every dispatch returns.\<close>

lemma onNextFrameAvailable_returns:
  assumes "mNotifyCB s \<noteq> None" "mDataCB s \<noteq> None" "mDataCBTimestamp s \<noteq> None"
    "mGetMemoryCB s \<noteq> None"
  shows "onNextFrameAvailable frame timestamp camera_dev s \<noteq> Inl f"
proof
  assume fault: "onNextFrameAvailable frame timestamp camera_dev s = Inl f"
  from videoFrameBlock_returns [OF assms(3,4)] obtain s1 video where
    video: "videoFrameBlock frame timestamp camera_dev s = Inr (s1, video)"
    by (cases "videoFrameBlock frame timestamp camera_dev s") auto
  from videoFrameBlock_keeps [OF video] assms
  have keeps: "mNotifyCB s1 \<noteq> None" "mDataCB s1 \<noteq> None" "mGetMemoryCB s1 \<noteq> None"
    by simp_all
  from previewFrameBlock_returns [OF keeps(2,3)] obtain preview where
    preview: "previewFrameBlock frame camera_dev s1 = Inr preview"
    by (cases "previewFrameBlock frame camera_dev s1") auto
  from takingPictureBlock_returns [OF keeps] obtain s2 picture where
    picture: "takingPictureBlock camera_dev s1 = Inr (s2, picture)"
    by (cases "takingPictureBlock camera_dev s1") auto
  from video preview picture fault show False
    by (simp add: onNextFrameAvailable_def)
qed

lemma returns_result: "(\<And>f. x \<noteq> Inl f) \<Longrightarrow> \<exists>s' r. x = Inr (s', r)"
  by (cases x) auto

lemma onNextFrameAvailable_endpoints:
  assumes "onNextFrameAvailable frame timestamp camera_dev s = Inr (s', evs)"
  shows "mNotifyCB s' = mNotifyCB s \<and> mDataCB s' = mDataCB s \<and>
         mDataCBTimestamp s' = mDataCBTimestamp s \<and> mGetMemoryCB s' = mGetMemoryCB s"
proof -
  from onNextFrameAvailable_blocks [OF assms] obtain s1 video preview picture where
    video: "videoFrameBlock frame timestamp camera_dev s = Inr (s1, video)" and
    picture: "takingPictureBlock camera_dev s1 = Inr (s', picture)"
    by blast
  from videoFrameBlock_keeps [OF video] takingPictureBlock_state [OF picture]
  show ?thesis by simp
qed

text \<open>With the four endpoints registered, every run of dispatches returns.\<close>

lemma onNextFramesAvailable_returns:
  "mNotifyCB s \<noteq> None \<Longrightarrow> mDataCB s \<noteq> None \<Longrightarrow> mDataCBTimestamp s \<noteq> None \<Longrightarrow>
   mGetMemoryCB s \<noteq> None \<Longrightarrow> onNextFramesAvailable frames s \<noteq> Inl f"
proof (induction frames arbitrary: s)
  case Nil
  show ?case by simp
next
  case (Cons call frames)
  obtain frame timestamp camera_dev where call: "call = (frame, timestamp, camera_dev)"
    by (cases call)
  from onNextFrameAvailable_returns [OF Cons.prems] obtain s1 evs where
    first: "onNextFrameAvailable frame timestamp camera_dev s = Inr (s1, evs)"
    by (cases "onNextFrameAvailable frame timestamp camera_dev s") auto
  from onNextFrameAvailable_endpoints [OF first] Cons.prems
  have "onNextFramesAvailable frames s1 \<noteq> Inl f"
    by (intro Cons.IH) simp_all
  with first call show ?case
    by (auto split: sum.splits)
qed

lemmas example_defs =
  exampleRecorder_def examplePhotographer_def exampleNotifier_def exampleDevice_def
  exampleParameters_def setCallbacks_def CallbackNotifier_new_def enableMessage_def
  setTakingPicture_def

lemmas dispatch_defs =
  onNextFrameAvailable_def videoFrameBlock_def previewFrameBlock_def takingPictureBlock_def
  shutterStep_def rawImageNotifyStep_def compressedImageStep_def isMessageEnabled_def
  isVideoRecordingEnabled_def isNewVideoFrameTime_def word_sle_eq
  CAMERA_MSG_VIDEO_FRAME_def CAMERA_MSG_PREVIEW_FRAME_def CAMERA_MSG_SHUTTER_def
  CAMERA_MSG_RAW_IMAGE_NOTIFY_def CAMERA_MSG_COMPRESSED_IMAGE_def

subsection \<open>Delivery of video frames\<close>





subsection \<open>The still-capture request\<close>

lemma pictureNotification_pictureEvent: "pictureNotification e \<Longrightarrow> pictureEvent e"
  by (cases e) simp_all

lemma filter_pictureNotification_empty:
  "\<forall>e \<in> set evs. \<not> pictureEvent e \<Longrightarrow> filter pictureNotification evs = []"
  by (auto simp: filter_empty_conv dest: pictureNotification_pictureEvent)

lemma compressedImageStep_notifications:
  "compressedImageStep camera_dev s = Inr compressed \<Longrightarrow>
     filter pictureNotification compressed =
       (if compressRawImage camera_dev = NO_ERROR \<and>
           (\<exists>jpeg_buff. jpegMemory camera_dev = Some jpeg_buff \<and> data jpeg_buff \<noteq> None)
        then [DataCall CAMERA_MSG_COMPRESSED_IMAGE (the (jpegMemory camera_dev)) (mCBOpaque s)]
        else []) \<and>
     CreateExifDataCall (createExifData camera_dev) \<in> set compressed"
  by (auto simp: compressedImageStep_def Let_def split: if_splits option.splits)

lemma takingPictureBlock_notifications:
  assumes "takingPictureBlock camera_dev s = Inr (s2, picture)" and "mTakingPicture s"
  shows "filter pictureNotification picture =
       (if isMessageEnabled CAMERA_MSG_SHUTTER s
        then [NotifyCall CAMERA_MSG_SHUTTER 0 0 (mCBOpaque s)] else []) @
       (if isMessageEnabled CAMERA_MSG_RAW_IMAGE_NOTIFY s
        then [NotifyCall CAMERA_MSG_RAW_IMAGE_NOTIFY 0 0 (mCBOpaque s)] else []) @
       (if isMessageEnabled CAMERA_MSG_COMPRESSED_IMAGE s \<and>
           compressRawImage camera_dev = NO_ERROR \<and>
           (\<exists>jpeg_buff. jpegMemory camera_dev = Some jpeg_buff \<and> data jpeg_buff \<noteq> None)
        then [DataCall CAMERA_MSG_COMPRESSED_IMAGE (the (jpegMemory camera_dev)) (mCBOpaque s)]
        else [])"
    and "isMessageEnabled CAMERA_MSG_COMPRESSED_IMAGE s \<longrightarrow>
           CreateExifDataCall (createExifData camera_dev) \<in> set picture"
proof -
  let ?s1 = "s\<lparr>mTakingPicture := False\<rparr>"
  have en: "\<And>m. isMessageEnabled m ?s1 = isMessageEnabled m s"
    by (simp add: isMessageEnabled_def)
  from assms obtain shutter raw_notify where
    sh: "shutterStep ?s1 = Inr shutter" and rn: "rawImageNotifyStep ?s1 = Inr raw_notify"
    by (auto simp: takingPictureBlock_def Let_def split: sum.splits)
  note sh' = shutterStep_events [OF sh] and rn' = rawImageNotifyStep_events [OF rn]
  show "filter pictureNotification picture =
       (if isMessageEnabled CAMERA_MSG_SHUTTER s
        then [NotifyCall CAMERA_MSG_SHUTTER 0 0 (mCBOpaque s)] else []) @
       (if isMessageEnabled CAMERA_MSG_RAW_IMAGE_NOTIFY s
        then [NotifyCall CAMERA_MSG_RAW_IMAGE_NOTIFY 0 0 (mCBOpaque s)] else []) @
       (if isMessageEnabled CAMERA_MSG_COMPRESSED_IMAGE s \<and>
           compressRawImage camera_dev = NO_ERROR \<and>
           (\<exists>jpeg_buff. jpegMemory camera_dev = Some jpeg_buff \<and> data jpeg_buff \<noteq> None)
        then [DataCall CAMERA_MSG_COMPRESSED_IMAGE (the (jpegMemory camera_dev)) (mCBOpaque s)]
        else [])"
  proof (cases "isMessageEnabled CAMERA_MSG_COMPRESSED_IMAGE s")
    case True
    with assms sh rn obtain compressed where
      co: "compressedImageStep camera_dev ?s1 = Inr compressed" and
      pic: "picture = shutter @ raw_notify @ compressed"
      by (auto simp: takingPictureBlock_def Let_def en split: sum.splits)
    from compressedImageStep_notifications [OF co] True sh' rn' pic show ?thesis
      by (simp add: en)
  next
    case False
    with assms sh rn have "picture = shutter @ raw_notify"
      by (auto simp: takingPictureBlock_def Let_def en split: sum.splits)
    with False sh' rn' show ?thesis by (simp add: en)
  qed
  show "isMessageEnabled CAMERA_MSG_COMPRESSED_IMAGE s \<longrightarrow>
           CreateExifDataCall (createExifData camera_dev) \<in> set picture"
  proof
    assume "isMessageEnabled CAMERA_MSG_COMPRESSED_IMAGE s"
    with assms sh rn obtain compressed where
      co: "compressedImageStep camera_dev ?s1 = Inr compressed" and
      pic: "picture = shutter @ raw_notify @ compressed"
      by (auto simp: takingPictureBlock_def Let_def en split: sum.splits)
    from compressedImageStep_notifications [OF co] pic
    show "CreateExifDataCall (createExifData camera_dev) \<in> set picture" by simp
  qed
qed

lemma onNextFrameAvailable_idle:
  assumes "onNextFrameAvailable frame timestamp camera_dev s = Inr (s', evs)"
    and "\<not> mTakingPicture s"
  shows "\<not> mTakingPicture s' \<and> (\<forall>e \<in> set evs. \<not> pictureEvent e)"
proof -
  from onNextFrameAvailable_blocks [OF assms(1)] obtain s1 video preview picture where
    video: "videoFrameBlock frame timestamp camera_dev s = Inr (s1, video)" and
    preview: "previewFrameBlock frame camera_dev s1 = Inr preview" and
    picture: "takingPictureBlock camera_dev s1 = Inr (s', picture)" and
    evs: "evs = video @ preview @ picture"
    by blast
  from videoFrameBlock_keeps [OF video] assms(2) have idle: "\<not> mTakingPicture s1" by simp
  with picture have "s' = s1" and "picture = []"
    by (simp_all add: takingPictureBlock_idle)
  with idle evs videoFrameBlock_events [OF video] previewFrameBlock_events [OF preview]
  show ?thesis by auto
qed

lemma onNextFramesAvailable_idle:
  "onNextFramesAvailable frames s = Inr (s', traces) \<Longrightarrow> \<not> mTakingPicture s \<Longrightarrow>
     \<not> mTakingPicture s' \<and> length traces = length frames \<and>
     (\<forall>evs \<in> set traces. \<forall>e \<in> set evs. \<not> pictureEvent e)"
proof (induction frames arbitrary: s traces)
  case Nil
  then show ?case by simp
next
  case (Cons call frames)
  obtain frame timestamp camera_dev where call: "call = (frame, timestamp, camera_dev)"
    by (cases call)
  from Cons.prems(1) call obtain s1 evs traces1 where
    first: "onNextFrameAvailable frame timestamp camera_dev s = Inr (s1, evs)" and
    later: "onNextFramesAvailable frames s1 = Inr (s', traces1)" and
    traces: "traces = evs # traces1"
    by (auto split: sum.splits prod.splits)
  from onNextFrameAvailable_idle [OF first Cons.prems(2)]
  have idle: "\<not> mTakingPicture s1" and quiet: "\<forall>e \<in> set evs. \<not> pictureEvent e"
    by simp_all
  from Cons.IH [OF later idle] traces quiet show ?case by simp
qed

text \<open>A run that returns has made the calls of the still-capture block in its first frame only.\<close>

lemma onNextFramesAvailable_picture:
  assumes "onNextFramesAvailable ((frame, timestamp, camera_dev) # frames)
             (setTakingPicture True s) = Inr (s', traces)"
  shows "\<not> mTakingPicture s' \<and> length traces = Suc (length frames) \<and>
     filter pictureNotification (hd traces) =
       (if isMessageEnabled CAMERA_MSG_SHUTTER s
        then [NotifyCall CAMERA_MSG_SHUTTER 0 0 (mCBOpaque s)] else []) @
       (if isMessageEnabled CAMERA_MSG_RAW_IMAGE_NOTIFY s
        then [NotifyCall CAMERA_MSG_RAW_IMAGE_NOTIFY 0 0 (mCBOpaque s)] else []) @
       (if isMessageEnabled CAMERA_MSG_COMPRESSED_IMAGE s \<and>
           compressRawImage camera_dev = NO_ERROR \<and>
           (\<exists>jpeg_buff. jpegMemory camera_dev = Some jpeg_buff \<and> data jpeg_buff \<noteq> None)
        then [DataCall CAMERA_MSG_COMPRESSED_IMAGE (the (jpegMemory camera_dev)) (mCBOpaque s)]
        else []) \<and>
     (isMessageEnabled CAMERA_MSG_COMPRESSED_IMAGE s \<longrightarrow>
        CreateExifDataCall (createExifData camera_dev) \<in> set (hd traces)) \<and>
     (\<forall>evs \<in> set (tl traces). \<forall>e \<in> set evs. \<not> pictureEvent e)"
proof -
  let ?s = "setTakingPicture True s"
  from assms obtain s1 evs traces1 where
    first: "onNextFrameAvailable frame timestamp camera_dev ?s = Inr (s1, evs)" and
    later: "onNextFramesAvailable frames s1 = Inr (s', traces1)" and
    traces: "traces = evs # traces1"
    by (auto split: sum.splits prod.splits)
  from onNextFrameAvailable_blocks [OF first] obtain s0 video preview picture where
    video: "videoFrameBlock frame timestamp camera_dev ?s = Inr (s0, video)" and
    preview: "previewFrameBlock frame camera_dev s0 = Inr preview" and
    picture: "takingPictureBlock camera_dev s0 = Inr (s1, picture)" and
    evs: "evs = video @ preview @ picture"
    by blast
  note keeps = videoFrameBlock_keeps [OF video]
  have taking: "mTakingPicture s0"
    using keeps by (simp add: setTakingPicture_def)
  have en: "\<And>m. isMessageEnabled m s0 = isMessageEnabled m s"
    using keeps by (simp add: isMessageEnabled_def setTakingPicture_def)
  have user: "mCBOpaque s0 = mCBOpaque s"
    using keeps by (simp add: setTakingPicture_def)
  have idle: "\<not> mTakingPicture s1"
    using takingPictureBlock_state [OF picture] by simp
  have quiet: "filter pictureNotification (video @ preview) = []"
    using videoFrameBlock_events [OF video] previewFrameBlock_events [OF preview]
    by (intro filter_pictureNotification_empty) auto
  note seq = takingPictureBlock_notifications [OF picture taking]
  from onNextFramesAvailable_idle [OF later idle] traces evs quiet seq
  show ?thesis by (simp add: en user)
qed

text \<open>
  Claim C1.  A still-capture request is consumed exactly once.  For every notifier whose
  four endpoints are registered, after \<open>setTakingPicture True\<close> every run of N \<ge> 1
  calls of \<open>onNextFrameAvailable\<close> on frames that are not NULL returns, with one trace
  for each call.  The trace of the first call holds the sequence shutter,
  raw-image-notify, compressed image: each of the two notifications exactly when its
  message is enabled, the compressed image exactly when its message is enabled and
  compression and allocation succeed, and the compressed-image step itself is started
  whenever its message is enabled.  No later call makes any call of the still-capture
  block, and \<open>mTakingPicture\<close> is false afterwards.
\<close>

theorem still_capture_consumed_once:
  assumes "mNotifyCB s \<noteq> None" and "mDataCB s \<noteq> None"
    and "mDataCBTimestamp s \<noteq> None" and "mGetMemoryCB s \<noteq> None"
    and "\<forall>call \<in> set frames. fst call \<noteq> None"
  shows "\<exists>s' traces.
     onNextFramesAvailable ((Some frame, timestamp, camera_dev) # frames)
       (setTakingPicture True s) = Inr (s', traces) \<and>
     \<not> mTakingPicture s' \<and> length traces = Suc (length frames) \<and>
     filter pictureNotification (hd traces) =
       (if isMessageEnabled CAMERA_MSG_SHUTTER s
        then [NotifyCall CAMERA_MSG_SHUTTER 0 0 (mCBOpaque s)] else []) @
       (if isMessageEnabled CAMERA_MSG_RAW_IMAGE_NOTIFY s
        then [NotifyCall CAMERA_MSG_RAW_IMAGE_NOTIFY 0 0 (mCBOpaque s)] else []) @
       (if isMessageEnabled CAMERA_MSG_COMPRESSED_IMAGE s \<and>
           compressRawImage camera_dev = NO_ERROR \<and>
           (\<exists>jpeg_buff. jpegMemory camera_dev = Some jpeg_buff \<and> data jpeg_buff \<noteq> None)
        then [DataCall CAMERA_MSG_COMPRESSED_IMAGE (the (jpegMemory camera_dev)) (mCBOpaque s)]
        else []) \<and>
     (isMessageEnabled CAMERA_MSG_COMPRESSED_IMAGE s \<longrightarrow>
        CreateExifDataCall (createExifData camera_dev) \<in> set (hd traces)) \<and>
     (\<forall>evs \<in> set (tl traces). \<forall>e \<in> set evs. \<not> pictureEvent e)"
proof -
  from assms(1-4)
  have cb: "mNotifyCB (setTakingPicture True s) \<noteq> None"
    "mDataCB (setTakingPicture True s) \<noteq> None"
    "mDataCBTimestamp (setTakingPicture True s) \<noteq> None"
    "mGetMemoryCB (setTakingPicture True s) \<noteq> None"
    by (simp_all add: setTakingPicture_def)
  from returns_result [OF onNextFramesAvailable_returns [OF cb]] obtain s' traces where
    run: "onNextFramesAvailable ((Some frame, timestamp, camera_dev) # frames)
            (setTakingPicture True s) = Inr (s', traces)"
    by blast
  from onNextFramesAvailable_picture [OF run] run show ?thesis
    by blast
qed

theorem still_capture_consumed_once_witness:
  "mNotifyCB examplePhotographer \<noteq> None \<and> mDataCB examplePhotographer \<noteq> None \<and>
   mDataCBTimestamp examplePhotographer \<noteq> None \<and> mGetMemoryCB examplePhotographer \<noteq> None \<and>
   onNextFramesAvailable
     [(Some 9, 0, exampleDevice), (Some 9, 1, exampleDevice), (Some 9, 2, exampleDevice)]
     (setTakingPicture True examplePhotographer) =
     Inr (examplePhotographer,
          [[NotifyCall CAMERA_MSG_SHUTTER 0 0 (Some 5),
            NotifyCall CAMERA_MSG_RAW_IMAGE_NOTIFY 0 0 (Some 5),
            CreateExifDataCall 7,
            CreateThumbnailCall 640 480 160 120 90 7 True,
            CompressRawImageCall 640 480 90 7 NO_ERROR,
            GetMemoryCall 50000 (Some \<lparr>handle = 300, data = Some 3000\<rparr>),
            GetCompressedImageCall \<lparr>handle = 300, data = Some 3000\<rparr>,
            DataCall CAMERA_MSG_COMPRESSED_IMAGE \<lparr>handle = 300, data = Some 3000\<rparr> (Some 5),
            ReleaseCall \<lparr>handle = 300, data = Some 3000\<rparr>,
            FreeExifDataCall 7],
           [], []]) \<and>
   \<not> mTakingPicture examplePhotographer"
proof -
  have cb: "mNotifyCB examplePhotographer \<noteq> None" "mDataCB examplePhotographer \<noteq> None"
    "mDataCBTimestamp examplePhotographer \<noteq> None" "mGetMemoryCB examplePhotographer \<noteq> None"
    by (simp_all add: example_defs)
  have real: "\<forall>call \<in> set [(Some 9, 1, exampleDevice), (Some 9, 2 :: nsecs_t, exampleDevice)].
      fst call \<noteq> (None :: pointer)"
    by simp
  have run: "onNextFramesAvailable
     [(Some 9, 0, exampleDevice), (Some 9, 1, exampleDevice), (Some 9, 2, exampleDevice)]
     (setTakingPicture True examplePhotographer) =
     Inr (examplePhotographer,
          [[NotifyCall CAMERA_MSG_SHUTTER 0 0 (Some 5),
            NotifyCall CAMERA_MSG_RAW_IMAGE_NOTIFY 0 0 (Some 5),
            CreateExifDataCall 7,
            CreateThumbnailCall 640 480 160 120 90 7 True,
            CompressRawImageCall 640 480 90 7 NO_ERROR,
            GetMemoryCall 50000 (Some \<lparr>handle = 300, data = Some 3000\<rparr>),
            GetCompressedImageCall \<lparr>handle = 300, data = Some 3000\<rparr>,
            DataCall CAMERA_MSG_COMPRESSED_IMAGE \<lparr>handle = 300, data = Some 3000\<rparr> (Some 5),
            ReleaseCall \<lparr>handle = 300, data = Some 3000\<rparr>,
            FreeExifDataCall 7],
           [], []])"
    by (simp add: dispatch_defs example_defs)
  from still_capture_consumed_once [OF cb real, of 9 0 exampleDevice] run cb
  show ?thesis by auto
qed

subsection \<open>Lifetime of the EXIF data\<close>

text \<open>With the data callback and the allocator registered, the compressed-image step returns, and these are its calls.\<close>

lemma compressedImageStep_calls:
  assumes "mDataCB s \<noteq> None" and "mGetMemoryCB s \<noteq> None"
  shows "compressedImageStep camera_dev s = Inr
      ([CreateExifDataCall (createExifData camera_dev)] @
       (if 0 < KEY_JPEG_THUMBNAIL_WIDTH (mCameraParameters s) \<and>
           0 < KEY_JPEG_THUMBNAIL_HEIGHT (mCameraParameters s)
        then [CreateThumbnailCall (getFrameWidth camera_dev) (getFrameHeight camera_dev)
                (KEY_JPEG_THUMBNAIL_WIDTH (mCameraParameters s))
                (KEY_JPEG_THUMBNAIL_HEIGHT (mCameraParameters s))
                (mJpegQuality s) (createExifData camera_dev) (createThumbnail camera_dev)]
        else []) @
       [CompressRawImageCall (getFrameWidth camera_dev) (getFrameHeight camera_dev)
          (mJpegQuality s) (createExifData camera_dev) (compressRawImage camera_dev)] @
       (if compressRawImage camera_dev = NO_ERROR
        then (case jpegMemory camera_dev of
                None \<Rightarrow> [GetMemoryCall (getCompressedSize camera_dev) None]
              | Some jpeg_buff \<Rightarrow>
                  if data jpeg_buff \<noteq> None
                  then [GetMemoryCall (getCompressedSize camera_dev) (Some jpeg_buff),
                        GetCompressedImageCall jpeg_buff,
                        DataCall CAMERA_MSG_COMPRESSED_IMAGE jpeg_buff (mCBOpaque s),
                        ReleaseCall jpeg_buff]
                  else [GetMemoryCall (getCompressedSize camera_dev) (Some jpeg_buff)])
        else []) @
       [FreeExifDataCall (createExifData camera_dev)])"
  using assms
  by (cases "jpegMemory camera_dev") (auto simp: compressedImageStep_def Let_def)

lemma compressedImageStep_exif_calls:
  "filter isExifLifetimeCall
      ([CreateExifDataCall (createExifData camera_dev)] @
       (if 0 < KEY_JPEG_THUMBNAIL_WIDTH (mCameraParameters s) \<and>
           0 < KEY_JPEG_THUMBNAIL_HEIGHT (mCameraParameters s)
        then [CreateThumbnailCall (getFrameWidth camera_dev) (getFrameHeight camera_dev)
                (KEY_JPEG_THUMBNAIL_WIDTH (mCameraParameters s))
                (KEY_JPEG_THUMBNAIL_HEIGHT (mCameraParameters s))
                (mJpegQuality s) (createExifData camera_dev) (createThumbnail camera_dev)]
        else []) @
       [CompressRawImageCall (getFrameWidth camera_dev) (getFrameHeight camera_dev)
          (mJpegQuality s) (createExifData camera_dev) (compressRawImage camera_dev)] @
       (if compressRawImage camera_dev = NO_ERROR
        then (case jpegMemory camera_dev of
                None \<Rightarrow> [GetMemoryCall (getCompressedSize camera_dev) None]
              | Some jpeg_buff \<Rightarrow>
                  if data jpeg_buff \<noteq> None
                  then [GetMemoryCall (getCompressedSize camera_dev) (Some jpeg_buff),
                        GetCompressedImageCall jpeg_buff,
                        DataCall CAMERA_MSG_COMPRESSED_IMAGE jpeg_buff (mCBOpaque s),
                        ReleaseCall jpeg_buff]
                  else [GetMemoryCall (getCompressedSize camera_dev) (Some jpeg_buff)])
        else []) @
       [FreeExifDataCall (createExifData camera_dev)]) =
     [CreateExifDataCall (createExifData camera_dev),
      FreeExifDataCall (createExifData camera_dev)]"
  by (cases "jpegMemory camera_dev") auto

text \<open>
  Claim C8.  In the still-capture block, whenever the compressed-image message is
  enabled: for every notifier whose four endpoints are registered and every frame that
  is not NULL the dispatch returns, and its trace ends with the compressed-image step,
  which creates one EXIF handle, attempts the thumbnail when both of its dimensions are
  positive, calls the compressor whatever \<open>createThumbnail\<close> returned, delivers, and
  frees the handle as its last call.  The delivery is the allocation, the copy of the
  compressed image, the data callback and the release when compression and allocation
  succeed; the allocation alone when it fails; and nothing when compression fails.  On
  each of these three paths the whole trace holds exactly one creation and one release
  of EXIF data, of the same handle, in this order.
\<close>

theorem exif_released_once:
  assumes "mNotifyCB s \<noteq> None" and "mDataCB s \<noteq> None"
    and "mDataCBTimestamp s \<noteq> None" and "mGetMemoryCB s \<noteq> None"
    and "mTakingPicture s"
    and "isMessageEnabled CAMERA_MSG_COMPRESSED_IMAGE s"
  shows "\<exists>s' evs before.
     onNextFrameAvailable (Some frame) timestamp camera_dev s = Inr (s', evs) \<and>
     evs = before @
       [CreateExifDataCall (createExifData camera_dev)] @
       (if 0 < KEY_JPEG_THUMBNAIL_WIDTH (mCameraParameters s) \<and>
           0 < KEY_JPEG_THUMBNAIL_HEIGHT (mCameraParameters s)
        then [CreateThumbnailCall (getFrameWidth camera_dev) (getFrameHeight camera_dev)
                (KEY_JPEG_THUMBNAIL_WIDTH (mCameraParameters s))
                (KEY_JPEG_THUMBNAIL_HEIGHT (mCameraParameters s))
                (mJpegQuality s) (createExifData camera_dev) (createThumbnail camera_dev)]
        else []) @
       [CompressRawImageCall (getFrameWidth camera_dev) (getFrameHeight camera_dev)
          (mJpegQuality s) (createExifData camera_dev) (compressRawImage camera_dev)] @
       (if compressRawImage camera_dev = NO_ERROR
        then (case jpegMemory camera_dev of
                None \<Rightarrow> [GetMemoryCall (getCompressedSize camera_dev) None]
              | Some jpeg_buff \<Rightarrow>
                  if data jpeg_buff \<noteq> None
                  then [GetMemoryCall (getCompressedSize camera_dev) (Some jpeg_buff),
                        GetCompressedImageCall jpeg_buff,
                        DataCall CAMERA_MSG_COMPRESSED_IMAGE jpeg_buff (mCBOpaque s),
                        ReleaseCall jpeg_buff]
                  else [GetMemoryCall (getCompressedSize camera_dev) (Some jpeg_buff)])
        else []) @
       [FreeExifDataCall (createExifData camera_dev)] \<and>
     (\<forall>e \<in> set before. \<not> isExifLifetimeCall e) \<and>
     filter isExifLifetimeCall evs =
       [CreateExifDataCall (createExifData camera_dev),
        FreeExifDataCall (createExifData camera_dev)]"
proof -
  from returns_result [OF onNextFrameAvailable_returns [OF assms(1-4)]] obtain s' evs where
    run: "onNextFrameAvailable (Some frame) timestamp camera_dev s = Inr (s', evs)"
    by blast
  from onNextFrameAvailable_blocks [OF run] obtain s1 video preview picture where
    video: "videoFrameBlock (Some frame) timestamp camera_dev s = Inr (s1, video)" and
    preview: "previewFrameBlock (Some frame) camera_dev s1 = Inr preview" and
    picture: "takingPictureBlock camera_dev s1 = Inr (s', picture)" and
    evs: "evs = video @ preview @ picture"
    by blast
  note keeps = videoFrameBlock_keeps [OF video]
  let ?s2 = "s1\<lparr>mTakingPicture := False\<rparr>"
  have taking: "mTakingPicture s1" using keeps assms(5) by simp
  have en: "isMessageEnabled CAMERA_MSG_COMPRESSED_IMAGE ?s2"
    using keeps assms(6) by (simp add: isMessageEnabled_def)
  have cb: "mDataCB ?s2 \<noteq> None" "mGetMemoryCB ?s2 \<noteq> None"
    using keeps assms(2,4) by simp_all
  from picture taking en obtain shutter raw_notify compressed where
    sh: "shutterStep ?s2 = Inr shutter" and rn: "rawImageNotifyStep ?s2 = Inr raw_notify" and
    co: "compressedImageStep camera_dev ?s2 = Inr compressed" and
    pic: "picture = shutter @ raw_notify @ compressed"
    by (auto simp: takingPictureBlock_def Let_def split: sum.splits)
  have quiet: "\<forall>e \<in> set (video @ preview @ shutter @ raw_notify). \<not> isExifLifetimeCall e"
    using videoFrameBlock_events [OF video] previewFrameBlock_events [OF preview]
      shutterStep_events [OF sh] rawImageNotifyStep_events [OF rn]
    by (auto split: if_splits)
  have same: "mCameraParameters ?s2 = mCameraParameters s" "mJpegQuality ?s2 = mJpegQuality s"
    "mCBOpaque ?s2 = mCBOpaque s"
    using keeps by simp_all
  from co compressedImageStep_calls [OF cb, of camera_dev]
  have compressed: "compressed =
       [CreateExifDataCall (createExifData camera_dev)] @
       (if 0 < KEY_JPEG_THUMBNAIL_WIDTH (mCameraParameters s) \<and>
           0 < KEY_JPEG_THUMBNAIL_HEIGHT (mCameraParameters s)
        then [CreateThumbnailCall (getFrameWidth camera_dev) (getFrameHeight camera_dev)
                (KEY_JPEG_THUMBNAIL_WIDTH (mCameraParameters s))
                (KEY_JPEG_THUMBNAIL_HEIGHT (mCameraParameters s))
                (mJpegQuality s) (createExifData camera_dev) (createThumbnail camera_dev)]
        else []) @
       [CompressRawImageCall (getFrameWidth camera_dev) (getFrameHeight camera_dev)
          (mJpegQuality s) (createExifData camera_dev) (compressRawImage camera_dev)] @
       (if compressRawImage camera_dev = NO_ERROR
        then (case jpegMemory camera_dev of
                None \<Rightarrow> [GetMemoryCall (getCompressedSize camera_dev) None]
              | Some jpeg_buff \<Rightarrow>
                  if data jpeg_buff \<noteq> None
                  then [GetMemoryCall (getCompressedSize camera_dev) (Some jpeg_buff),
                        GetCompressedImageCall jpeg_buff,
                        DataCall CAMERA_MSG_COMPRESSED_IMAGE jpeg_buff (mCBOpaque s),
                        ReleaseCall jpeg_buff]
                  else [GetMemoryCall (getCompressedSize camera_dev) (Some jpeg_buff)])
        else []) @
       [FreeExifDataCall (createExifData camera_dev)]"
    by (simp only: same sum.inject)
  have split: "evs = (video @ preview @ shutter @ raw_notify) @ compressed"
    using evs pic by simp
  have none: "filter isExifLifetimeCall (video @ preview @ shutter @ raw_notify) = []"
    using quiet by (simp only: filter_empty_conv)
  have count: "filter isExifLifetimeCall evs =
       [CreateExifDataCall (createExifData camera_dev),
        FreeExifDataCall (createExifData camera_dev)]"
  proof -
    have "filter isExifLifetimeCall evs =
        filter isExifLifetimeCall (video @ preview @ shutter @ raw_notify) @
        filter isExifLifetimeCall compressed"
      by (simp only: split filter_append)
    also have "\<dots> = filter isExifLifetimeCall compressed"
      by (simp only: none append_Nil)
    also have "\<dots> = [CreateExifDataCall (createExifData camera_dev),
        FreeExifDataCall (createExifData camera_dev)]"
      by (simp only: compressed compressedImageStep_exif_calls)
    finally show ?thesis .
  qed
  from run split quiet count show ?thesis
    unfolding compressed by blast
qed

theorem exif_released_once_witness:
  "mNotifyCB (setTakingPicture True examplePhotographer) \<noteq> None \<and>
   mDataCB (setTakingPicture True examplePhotographer) \<noteq> None \<and>
   mDataCBTimestamp (setTakingPicture True examplePhotographer) \<noteq> None \<and>
   mGetMemoryCB (setTakingPicture True examplePhotographer) \<noteq> None \<and>
   mTakingPicture (setTakingPicture True examplePhotographer) \<and>
   isMessageEnabled CAMERA_MSG_COMPRESSED_IMAGE (setTakingPicture True examplePhotographer) \<and>
   onNextFrameAvailable (Some 9) 0 (exampleDevice\<lparr>createThumbnail := False\<rparr>)
     (setTakingPicture True examplePhotographer) =
     Inr (examplePhotographer,
          [NotifyCall CAMERA_MSG_SHUTTER 0 0 (Some 5),
           NotifyCall CAMERA_MSG_RAW_IMAGE_NOTIFY 0 0 (Some 5),
           CreateExifDataCall 7,
           CreateThumbnailCall 640 480 160 120 90 7 False,
           CompressRawImageCall 640 480 90 7 NO_ERROR,
           GetMemoryCall 50000 (Some \<lparr>handle = 300, data = Some 3000\<rparr>),
           GetCompressedImageCall \<lparr>handle = 300, data = Some 3000\<rparr>,
           DataCall CAMERA_MSG_COMPRESSED_IMAGE \<lparr>handle = 300, data = Some 3000\<rparr> (Some 5),
           ReleaseCall \<lparr>handle = 300, data = Some 3000\<rparr>,
           FreeExifDataCall 7]) \<and>
   onNextFrameAvailable (Some 9) 0 (exampleDevice\<lparr>jpegMemory := None\<rparr>)
     (setTakingPicture True examplePhotographer) =
     Inr (examplePhotographer,
          [NotifyCall CAMERA_MSG_SHUTTER 0 0 (Some 5),
           NotifyCall CAMERA_MSG_RAW_IMAGE_NOTIFY 0 0 (Some 5),
           CreateExifDataCall 7,
           CreateThumbnailCall 640 480 160 120 90 7 True,
           CompressRawImageCall 640 480 90 7 NO_ERROR,
           GetMemoryCall 50000 None,
           FreeExifDataCall 7]) \<and>
   onNextFrameAvailable (Some 9) 0 (exampleDevice\<lparr>jpegMemory := Some \<lparr>handle = 300, data = None\<rparr>\<rparr>)
     (setTakingPicture True examplePhotographer) =
     Inr (examplePhotographer,
          [NotifyCall CAMERA_MSG_SHUTTER 0 0 (Some 5),
           NotifyCall CAMERA_MSG_RAW_IMAGE_NOTIFY 0 0 (Some 5),
           CreateExifDataCall 7,
           CreateThumbnailCall 640 480 160 120 90 7 True,
           CompressRawImageCall 640 480 90 7 NO_ERROR,
           GetMemoryCall 50000 (Some \<lparr>handle = 300, data = None\<rparr>),
           FreeExifDataCall 7]) \<and>
   onNextFrameAvailable (Some 9) 0 (exampleDevice\<lparr>compressRawImage := ERROR_CODE (- 22)\<rparr>)
     (setTakingPicture True examplePhotographer) =
     Inr (examplePhotographer,
          [NotifyCall CAMERA_MSG_SHUTTER 0 0 (Some 5),
           NotifyCall CAMERA_MSG_RAW_IMAGE_NOTIFY 0 0 (Some 5),
           CreateExifDataCall 7,
           CreateThumbnailCall 640 480 160 120 90 7 True,
           CompressRawImageCall 640 480 90 7 (ERROR_CODE (- 22)),
           FreeExifDataCall 7])"
proof -
  let ?s = "setTakingPicture True examplePhotographer"
  have cb: "mNotifyCB ?s \<noteq> None" "mDataCB ?s \<noteq> None" "mDataCBTimestamp ?s \<noteq> None"
    "mGetMemoryCB ?s \<noteq> None"
    by (simp_all add: example_defs)
  have taking: "mTakingPicture ?s"
    by (simp add: setTakingPicture_def)
  have en: "isMessageEnabled CAMERA_MSG_COMPRESSED_IMAGE ?s"
    by (simp add: dispatch_defs example_defs)
  note paths = exif_released_once [OF cb taking en, of 9 0]
  from paths [of "exampleDevice\<lparr>createThumbnail := False\<rparr>"]
  have ok: "onNextFrameAvailable (Some 9) 0 (exampleDevice\<lparr>createThumbnail := False\<rparr>)
     (setTakingPicture True examplePhotographer) =
     Inr (examplePhotographer,
          [NotifyCall CAMERA_MSG_SHUTTER 0 0 (Some 5),
           NotifyCall CAMERA_MSG_RAW_IMAGE_NOTIFY 0 0 (Some 5),
           CreateExifDataCall 7,
           CreateThumbnailCall 640 480 160 120 90 7 False,
           CompressRawImageCall 640 480 90 7 NO_ERROR,
           GetMemoryCall 50000 (Some \<lparr>handle = 300, data = Some 3000\<rparr>),
           GetCompressedImageCall \<lparr>handle = 300, data = Some 3000\<rparr>,
           DataCall CAMERA_MSG_COMPRESSED_IMAGE \<lparr>handle = 300, data = Some 3000\<rparr> (Some 5),
           ReleaseCall \<lparr>handle = 300, data = Some 3000\<rparr>,
           FreeExifDataCall 7])"
    by (simp add: dispatch_defs example_defs)
  from paths [of "exampleDevice\<lparr>jpegMemory := None\<rparr>"]
  have nomem: "onNextFrameAvailable (Some 9) 0 (exampleDevice\<lparr>jpegMemory := None\<rparr>)
     (setTakingPicture True examplePhotographer) =
     Inr (examplePhotographer,
          [NotifyCall CAMERA_MSG_SHUTTER 0 0 (Some 5),
           NotifyCall CAMERA_MSG_RAW_IMAGE_NOTIFY 0 0 (Some 5),
           CreateExifDataCall 7,
           CreateThumbnailCall 640 480 160 120 90 7 True,
           CompressRawImageCall 640 480 90 7 NO_ERROR,
           GetMemoryCall 50000 None,
           FreeExifDataCall 7])"
    by (simp add: dispatch_defs example_defs)
  from paths [of "exampleDevice\<lparr>jpegMemory := Some \<lparr>handle = 300, data = None\<rparr>\<rparr>"]
  have nodata: "onNextFrameAvailable (Some 9) 0 (exampleDevice\<lparr>jpegMemory := Some \<lparr>handle = 300, data = None\<rparr>\<rparr>)
     (setTakingPicture True examplePhotographer) =
     Inr (examplePhotographer,
          [NotifyCall CAMERA_MSG_SHUTTER 0 0 (Some 5),
           NotifyCall CAMERA_MSG_RAW_IMAGE_NOTIFY 0 0 (Some 5),
           CreateExifDataCall 7,
           CreateThumbnailCall 640 480 160 120 90 7 True,
           CompressRawImageCall 640 480 90 7 NO_ERROR,
           GetMemoryCall 50000 (Some \<lparr>handle = 300, data = None\<rparr>),
           FreeExifDataCall 7])"
    by (simp add: dispatch_defs example_defs)
  from paths [of "exampleDevice\<lparr>compressRawImage := ERROR_CODE (- 22)\<rparr>"]
  have failed: "onNextFrameAvailable (Some 9) 0 (exampleDevice\<lparr>compressRawImage := ERROR_CODE (- 22)\<rparr>)
     (setTakingPicture True examplePhotographer) =
     Inr (examplePhotographer,
          [NotifyCall CAMERA_MSG_SHUTTER 0 0 (Some 5),
           NotifyCall CAMERA_MSG_RAW_IMAGE_NOTIFY 0 0 (Some 5),
           CreateExifDataCall 7,
           CreateThumbnailCall 640 480 160 120 90 7 True,
           CompressRawImageCall 640 480 90 7 (ERROR_CODE (- 22)),
           FreeExifDataCall 7])"
    by (simp add: dispatch_defs example_defs)
  from cb taking en ok nomem nodata failed show ?thesis
    by blast
qed

subsection \<open>The names of the messages of a mask\<close>

lemma lCameraMessagesNum_eq: "lCameraMessagesNum = 11"
  by (simp add: lCameraMessagesNum_def lCameraMessages_def)

lemma lowest_bit_clear: "(msg :: uint32_t) AND 1 = 0 \<longleftrightarrow> \<not> bit msg 0"
  by (simp add: and_one_eq bit_0 even_iff_mod_2_eq_zero)

lemma set_bits_step:
  assumes "k < 11"
  shows "[i \<leftarrow> [k..<11]. bit (msg :: uint32_t) (i - k)] =
         (if bit msg 0 then [k] else []) @ [i \<leftarrow> [Suc k..<11]. bit (drop_bit 1 msg) (i - Suc k)]"
proof -
  have "[i \<leftarrow> [Suc k..<11]. bit msg (i - k)] = [i \<leftarrow> [Suc k..<11]. bit (drop_bit 1 msg) (i - Suc k)]"
  proof (rule filter_cong [OF refl])
    fix i assume "i \<in> set [Suc k..<11]"
    then have "i - k = 1 + (i - Suc k)" by auto
    then show "bit msg (i - k) = bit (drop_bit 1 msg) (i - Suc k)"
      by (simp add: bit_drop_bit_eq)
  qed
  with assms show ?thesis by (simp add: upt_conv_Cons)
qed

lemma skipClearBits_bits:
  "skipClearBits msg index = (msg1, index1) \<Longrightarrow> 0 \<le> index \<Longrightarrow>
     [i \<leftarrow> [nat index..<11]. bit msg (i - nat index)] =
     [i \<leftarrow> [nat index1..<11]. bit msg1 (i - nat index1)]"
proof (induction msg index rule: skipClearBits.induct)
  case (1 msg index)
  show ?case
  proof (cases "msg AND 1 = 0 \<and> index < lCameraMessagesNum")
    case True
    with "1.prems" have rec: "skipClearBits (drop_bit 1 msg) (index + 1) = (msg1, index1)"
      by (simp add: skipClearBits.simps [of msg index])
    from True "1.prems" have k: "nat index < 11" and suc: "nat (index + 1) = Suc (nat index)"
      by (auto simp: lCameraMessagesNum_eq)
    from True have "\<not> bit msg 0" by (simp add: lowest_bit_clear)
    with set_bits_step [OF k, of msg]
    have "[i \<leftarrow> [nat index..<11]. bit msg (i - nat index)] =
          [i \<leftarrow> [nat (index + 1)..<11]. bit (drop_bit 1 msg) (i - nat (index + 1))]"
      by (simp add: suc)
    also from "1.IH" [OF True rec] "1.prems" have "\<dots> =
          [i \<leftarrow> [nat index1..<11]. bit msg1 (i - nat index1)]"
      by simp
    finally show ?thesis .
  next
    case False
    with "1.prems" show ?thesis
      by (simp add: skipClearBits.simps [of msg index])
  qed
qed

text \<open>
  What the outer loop returns from any of its states, in terms of the bits of \<open>msg\<close> that
  are still to be looked at: \<open>msg\<close> has been shifted \<open>index\<close> times, so its bit \<open>i - index\<close>
  is the bit \<open>i\<close> of the mask.
\<close>

lemma GetMessageStrings_loop_result:
  "0 \<le> index \<Longrightarrow> 0 \<le> out \<Longrightarrow>
   GetMessageStrings_loop msg index out strings max' =
     (out + int (min (nat (max' - out))
                     (length [i \<leftarrow> [nat index..<11]. bit msg (i - nat index)])),
      \<lambda>i. if nat out \<le> i \<and>
              i < nat out + min (nat (max' - out))
                     (length [i \<leftarrow> [nat index..<11]. bit msg (i - nat index)])
           then lCameraMessages ! ([i \<leftarrow> [nat index..<11]. bit msg (i - nat index)] ! (i - nat out))
           else strings i)"
proof (induction msg index out strings max' rule: GetMessageStrings_loop.induct)
  case (1 msg index out strings max')
  let ?ps = "[i \<leftarrow> [nat index..<11]. bit msg (i - nat index)]"
  show ?case
  proof (cases "msg \<noteq> 0 \<and> out < max' \<and> index < lCameraMessagesNum")
    case False
    then have z: "min (nat (max' - out)) (length ?ps) = 0"
      using "1.prems" by (auto simp: lCameraMessagesNum_eq)
    from False have r: "GetMessageStrings_loop msg index out strings max' = (out, strings)"
      by (subst GetMessageStrings_loop.simps) auto
    show ?thesis
      unfolding r by (auto simp: z fun_eq_iff)
  next
    case True
    obtain msg1 index1 where skip: "skipClearBits msg index = (msg1, index1)"
      by (cases "skipClearBits msg index")
    let ?ps1 = "[i \<leftarrow> [nat index1..<11]. bit msg1 (i - nat index1)]"
    have ps: "?ps = ?ps1"
      using skipClearBits_bits [OF skip] "1.prems" by simp
    have le: "index \<le> index1" by (rule skipClearBits_index_le [OF skip])
    with "1.prems" have nn1: "0 \<le> index1" by simp
    show ?thesis
    proof (cases "msg1 AND 1 \<noteq> 0 \<and> index1 < lCameraMessagesNum")
      case store: True
      let ?strings = "strings(nat out := lCameraMessages ! nat index1)"
      let ?ps2 = "[i \<leftarrow> [nat (index1 + 1)..<11]. bit (drop_bit 1 msg1) (i - nat (index1 + 1))]"
      from store nn1 have k: "nat index1 < 11" and suc: "nat (index1 + 1) = Suc (nat index1)"
        by (auto simp: lCameraMessagesNum_eq)
      from store have "bit msg1 0" by (simp add: lowest_bit_clear)
      with set_bits_step [OF k, of msg1] have ps1: "?ps1 = nat index1 # ?ps2"
        by (simp add: suc)
      have step: "GetMessageStrings_loop msg index out strings max' =
            GetMessageStrings_loop (drop_bit 1 msg1) (index1 + 1) (out + 1) ?strings max'"
        using True store skip
        by (subst GetMessageStrings_loop.simps) auto
      have IH: "GetMessageStrings_loop (drop_bit 1 msg1) (index1 + 1) (out + 1) ?strings max' =
        (out + 1 + int (min (nat (max' - (out + 1))) (length ?ps2)),
         \<lambda>i. if nat (out + 1) \<le> i \<and> i < nat (out + 1) + min (nat (max' - (out + 1))) (length ?ps2)
              then lCameraMessages ! (?ps2 ! (i - nat (out + 1)))
              else ?strings i)"
        by (rule "1.IH"(1) [OF True skip [symmetric] store]) (use nn1 "1.prems" in simp_all)
      from True have "nat (max' - out) = Suc (nat (max' - (out + 1)))"
        by auto
      then have m: "min (nat (max' - out)) (length ?ps) =
           Suc (min (nat (max' - (out + 1))) (length ?ps2))"
        by (simp only: ps ps1 list.size min_Suc_Suc) simp
      from "1.prems" have o: "nat (out + 1) = Suc (nat out)" by simp
      show ?thesis
        unfolding step IH m
        by (auto simp: o ps ps1 fun_eq_iff nth_Cons')
    next
      case stop: False
      have step: "GetMessageStrings_loop msg index out strings max' =
            GetMessageStrings_loop msg1 index1 out strings max'"
        using True stop skip
        by (subst GetMessageStrings_loop.simps) auto
      have IH: "GetMessageStrings_loop msg1 index1 out strings max' =
        (out + int (min (nat (max' - out)) (length ?ps1)),
         \<lambda>i. if nat out \<le> i \<and> i < nat out + min (nat (max' - out)) (length ?ps1)
              then lCameraMessages ! (?ps1 ! (i - nat out))
              else strings i)"
        by (rule "1.IH"(2) [OF True skip [symmetric] stop]) (use nn1 "1.prems" in simp_all)
      show ?thesis
        unfolding step IH by (simp only: ps)
    qed
  qed
qed


lemma low_bits_of_masked:
  "[i \<leftarrow> [0..<11]. bit ((msg :: uint32_t) AND 0x7FF) i] = [i \<leftarrow> [0..<11]. bit msg i]"
proof (rule filter_cong [OF refl])
  fix i assume "i \<in> set [0..<11]"
  then have i: "i < 11" by simp
  have m: "(0x7FF :: uint32_t) = mask 11" by (simp add: mask_eq_exp_minus_1)
  from i show "bit (msg AND 0x7FF) i = bit msg i"
    by (simp only: m bit_and_iff bit_mask_iff) (auto simp: bit_imp_possible_bit)
qed

lemma GetMessageStrings_eq:
  "GetMessageStrings msg strings max' =
     (int (min (nat max') (length [i \<leftarrow> [0..<11]. bit msg i])),
      \<lambda>j. if j < min (nat max') (length [i \<leftarrow> [0..<11]. bit msg i])
           then lCameraMessages ! ([i \<leftarrow> [0..<11]. bit msg i] ! j)
           else strings j)"
  using GetMessageStrings_loop_result [of 0 0 msg strings max']
  by (simp add: GetMessageStrings_def cong: if_cong)

text \<open>
  Claim C10.  For every 32-bit mask \<open>msg\<close> and every capacity \<open>max\<close> \<ge> 0,
  \<open>GetMessageStrings\<close> terminates (each loop is a total function) and returns the
  minimum of \<open>max\<close> and the number of bits set among the lowest 11 positions of \<open>msg\<close>.
  It stores the names of these bits below the returned count, in ascending order of
  position, and leaves the rest of the array as it was.  The bits at positions 11 and
  above are ignored.
\<close>

theorem GetMessageStrings_result:
  assumes "0 \<le> max'"
  shows "fst (GetMessageStrings msg strings max') =
           min max' (int (length [i \<leftarrow> [0..<11]. bit msg i])) \<and>
         (j < nat (fst (GetMessageStrings msg strings max')) \<longrightarrow>
            snd (GetMessageStrings msg strings max') j =
              lCameraMessages ! ([i \<leftarrow> [0..<11]. bit msg i] ! j)) \<and>
         (nat (fst (GetMessageStrings msg strings max')) \<le> j \<longrightarrow>
            snd (GetMessageStrings msg strings max') j = strings j) \<and>
         GetMessageStrings (msg AND 0x7FF) strings max' = GetMessageStrings msg strings max'"
proof -
  have masked: "GetMessageStrings (msg AND 0x7FF) strings max' = GetMessageStrings msg strings max'"
    by (simp only: GetMessageStrings_eq low_bits_of_masked)
  have "int (min (nat max') (length [i \<leftarrow> [0..<11]. bit msg i])) =
      min max' (int (length [i \<leftarrow> [0..<11]. bit msg i]))"
    using assms by linarith
  then have count: "fst (GetMessageStrings msg strings max') =
           min max' (int (length [i \<leftarrow> [0..<11]. bit msg i]))"
    by (simp only: GetMessageStrings_eq fst_conv)
  have stored: "j < nat (fst (GetMessageStrings msg strings max')) \<longrightarrow>
            snd (GetMessageStrings msg strings max') j =
              lCameraMessages ! ([i \<leftarrow> [0..<11]. bit msg i] ! j)"
    by (auto simp: GetMessageStrings_eq)
  have kept: "nat (fst (GetMessageStrings msg strings max')) \<le> j \<longrightarrow>
            snd (GetMessageStrings msg strings max') j = strings j"
    by (auto simp: GetMessageStrings_eq)
  from count stored kept masked show ?thesis
    by blast
qed

lemma example_positions: "[i \<leftarrow> [0..<11]. bit (0x102 :: uint32_t) i] = [1, 8]"
  by code_simp

theorem GetMessageStrings_result_witness:
  "(0 :: int) \<le> 11 \<and>
   fst (GetMessageStrings 0x102 (\<lambda>i. []) 11) = 2 \<and>
   snd (GetMessageStrings 0x102 (\<lambda>i. []) 11) 0 = ''CAMERA_MSG_SHUTTER'' \<and>
   snd (GetMessageStrings 0x102 (\<lambda>i. []) 11) 1 = ''CAMERA_MSG_COMPRESSED_IMAGE'' \<and>
   snd (GetMessageStrings 0x102 (\<lambda>i. []) 11) 2 = []"
proof -
  have pos: "(0 :: int) \<le> 11" by simp
  note r = GetMessageStrings_result
    [OF pos, where msg = "0x102" and strings = "\<lambda>i. []", unfolded example_positions]
  from r [where j = 0] r [where j = 1] r [where j = 2] show ?thesis
    by (simp add: lCameraMessages_def)
qed

end
